theory Spec2Isabelle
  imports Main
begin

section \<open>Python values used by the aligners\<close>

text \<open>
  The aligners of the notebook work on Python strings, unbounded integers and a list of
  lists of integers.  A string is a \<open>string\<close>, an integer an \<open>int\<close>, the table an
  \<open>int list list\<close>.  The traceback indexes with integers that may be negative, so its
  subscripts go through \<open>py_index\<close>: a negative subscript counts from the end, and a
  subscript outside \<open>-len .. len-1\<close> raises \<open>IndexError\<close>.
\<close>

datatype error =
    IndexError_traceback int int  \<comment> \<open>\<open>raise IndexError('Tracback went out of bounds (i,j)')\<close>\<close>
  | IndexError_range              \<comment> \<open>Python's own \<open>index out of range\<close>\<close>
  | RuntimeError_recursion        \<comment> \<open>\<open>RuntimeError: maximum recursion depth exceeded\<close>\<close>

type_synonym table = "int list list"
type_synonym results = "(string \<times> string) list"

text \<open>The outcome of a call that appends to the shared list \<open>results\<close>: the exception it
  raised, if any, and the list as the call left it.\<close>

type_synonym outcome = "error option \<times> results"

definition py_index :: "'a list \<Rightarrow> int \<Rightarrow> 'a option" where
  "py_index xs k =
     (if 0 \<le> k \<and> k < int (length xs) then Some (xs ! nat k)
      else if k < 0 \<and> - int (length xs) \<le> k then Some (xs ! nat (int (length xs) + k))
      else None)"

text \<open>\<open>table[i][j]\<close>\<close>

definition py_index2 :: "table \<Rightarrow> int \<Rightarrow> int \<Rightarrow> int option" where
  "py_index2 t i j = (case py_index t i of None \<Rightarrow> None | Some row \<Rightarrow> py_index row j)"

text \<open>Statement sequencing: the second statement runs on the list the first one left,
  unless the first one raised.\<close>

definition and_then :: "outcome \<Rightarrow> (results \<Rightarrow> outcome) \<Rightarrow> outcome" where
  "and_then r k = (case r of (None, rs) \<Rightarrow> k rs | (Some e, rs) \<Rightarrow> (Some e, rs))"

section \<open>Table construction\<close>

text \<open>\<open>NW_makeTable\<close>: \<open>len(X)+1\<close> fresh rows of \<open>len(Y)+1\<close> zeros, then column 0 and
  row 0 are overwritten with multiples of the gap penalty.\<close>

definition NW_makeTable :: "string \<Rightarrow> string \<Rightarrow> int \<Rightarrow> table" where
  "NW_makeTable X Y g =
    (let table = fold (\<lambda>i t. t @ [replicate (length Y + 1) 0]) [0..<length X + 1] [];
         table = fold (\<lambda>i t. t[i := (t ! i)[0 := int i * g]]) [0..<length X + 1] table;
         table = fold (\<lambda>j t. t[0 := (t ! 0)[j := int j * g]]) [0..<length Y + 1] table
     in table)"

definition SW_makeTable :: "string \<Rightarrow> string \<Rightarrow> table" where
  "SW_makeTable X Y = fold (\<lambda>i t. t @ [replicate (length Y + 1) 0]) [0..<length X + 1] []"

section \<open>Table fill\<close>

text \<open>\<open>score = lambda a, b: match if a == b else mismatch\<close>\<close>

definition score :: "int \<Rightarrow> int \<Rightarrow> char \<Rightarrow> char \<Rightarrow> int" where
  "score match mismatch a b = (if a = b then match else mismatch)"

text \<open>
  The fill loops of \<open>NeedlemanWunsch\<close> and of \<open>SmithWaterman\<close>, each transcribed from its
  own function.  \<open>X\<close> and \<open>Y\<close> carry the sentinel.  The subscripts are those of
  \<open>range(1, len(table))\<close> and \<open>range(1, len(table[i]))\<close>: they are never negative,
  and they are in range of the table and of both sequences, since the table the loop runs
  on has one row per symbol of \<open>X\<close> and one cell per symbol of \<open>Y\<close> (the lemmas
  \<open>NW_makeTable_rectangular\<close> and \<open>SW_makeTable_rectangular\<close>).  So the loops raise
  nothing, and the subscripts are plain \<open>!\<close>.
\<close>

definition NW_fill_cell :: "string \<Rightarrow> string \<Rightarrow> int \<Rightarrow> int \<Rightarrow> int \<Rightarrow> nat \<Rightarrow> nat \<Rightarrow> table \<Rightarrow> table" where
  "NW_fill_cell X Y gap match mismatch i j table =
    (let a = table ! (i - 1) ! (j - 1) + score match mismatch (X ! i) (Y ! j);
         b = table ! (i - 1) ! j + gap;
         c = table ! i ! (j - 1) + gap
     in table[i := (table ! i)[j := max a (max b c)]])"

definition NW_fill :: "string \<Rightarrow> string \<Rightarrow> int \<Rightarrow> int \<Rightarrow> int \<Rightarrow> table \<Rightarrow> table" where
  "NW_fill X Y gap match mismatch table =
     fold (\<lambda>i t. fold (NW_fill_cell X Y gap match mismatch i) [1..<length (t ! i)] t)
          [1..<length table] table"

definition SW_fill_cell :: "string \<Rightarrow> string \<Rightarrow> int \<Rightarrow> int \<Rightarrow> int \<Rightarrow> nat \<Rightarrow> nat \<Rightarrow> table \<Rightarrow> table" where
  "SW_fill_cell X Y gap match mismatch i j table =
    (let a = table ! (i - 1) ! (j - 1) + score match mismatch (X ! i) (Y ! j);
         b = table ! (i - 1) ! j + gap;
         c = table ! i ! (j - 1) + gap
     in table[i := (table ! i)[j := max a (max b c)]])"

definition SW_fill :: "string \<Rightarrow> string \<Rightarrow> int \<Rightarrow> int \<Rightarrow> int \<Rightarrow> table \<Rightarrow> table" where
  "SW_fill X Y gap match mismatch table =
     fold (\<lambda>i t. fold (SW_fill_cell X Y gap match mismatch i) [1..<length (t ! i)] t)
          [1..<length table] table"

section \<open>Traceback\<close>

text \<open>
  \<open>NW_traceBack\<close>.  The three tests after the bounds check are separate \<open>if\<close>
  statements, and the \<open>else\<close> belongs to the last of them (\<open>i == 0 and j == 0\<close>) only.
  The interpreter's limit on nested calls is not in this function nor in \<open>SW_traceBack\<close>:
  they are the tracebacks as long as that limit is not reached.  The section on the
  recursion limit has the same bodies with it.
\<close>

function NW_traceBack ::
  "table \<Rightarrow> string \<Rightarrow> string \<Rightarrow> int \<Rightarrow> int \<Rightarrow> int \<Rightarrow> int \<Rightarrow> int \<Rightarrow> string \<Rightarrow> string \<Rightarrow> results \<Rightarrow> outcome"
where
  "NW_traceBack table X Y g m n i j a1 a2 results =
    (if i < 0 \<or> j < 0 then (Some (IndexError_traceback i j), results)
     else
      and_then
        (if i = 0 \<and> j \<noteq> 0 then
           (case py_index Y j of None \<Rightarrow> (Some IndexError_range, results)
            | Some yj \<Rightarrow> NW_traceBack table X Y g m n i (j - 1) (a1 @ ''-'') (a2 @ [yj]) results)
         else (None, results))
      (\<lambda>results.
      and_then
        (if j = 0 \<and> i \<noteq> 0 then
           (case py_index X i of None \<Rightarrow> (Some IndexError_range, results)
            | Some xi \<Rightarrow> NW_traceBack table X Y g m n (i - 1) j (a1 @ [xi]) (a2 @ ''-'') results)
         else (None, results))
      (\<lambda>results.
        if i = 0 \<and> j = 0 then (None, results @ [(rev a1, rev a2)])
        else
         (case py_index2 table i j of None \<Rightarrow> (Some IndexError_range, results) | Some a \<Rightarrow>
          case py_index2 table (i - 1) j of None \<Rightarrow> (Some IndexError_range, results) | Some b \<Rightarrow>
          case py_index2 table i (j - 1) of None \<Rightarrow> (Some IndexError_range, results) | Some c \<Rightarrow>
          case py_index2 table (i - 1) (j - 1) of None \<Rightarrow> (Some IndexError_range, results) | Some d \<Rightarrow>
          and_then
            (if a - d = m then
               (case py_index X i of None \<Rightarrow> (Some IndexError_range, results) | Some xi \<Rightarrow>
                case py_index Y j of None \<Rightarrow> (Some IndexError_range, results) | Some yj \<Rightarrow>
                if xi = yj
                then NW_traceBack table X Y g m n (i - 1) (j - 1) (a1 @ [xi]) (a2 @ [yj]) results
                else (None, results))
             else (None, results))
          (\<lambda>results.
          and_then
            (if a - d = n then
               (case py_index X i of None \<Rightarrow> (Some IndexError_range, results) | Some xi \<Rightarrow>
                case py_index Y j of None \<Rightarrow> (Some IndexError_range, results) | Some yj \<Rightarrow>
                if xi \<noteq> yj
                then NW_traceBack table X Y g m n (i - 1) (j - 1) (a1 @ [xi]) (a2 @ [yj]) results
                else (None, results))
             else (None, results))
          (\<lambda>results.
          and_then
            (if a - b = g then
               (case py_index X i of None \<Rightarrow> (Some IndexError_range, results) | Some xi \<Rightarrow>
                NW_traceBack table X Y g m n (i - 1) j (a1 @ [xi]) (a2 @ ''-'') results)
             else (None, results))
          (\<lambda>results.
            if a - c = g then
              (case py_index Y j of None \<Rightarrow> (Some IndexError_range, results) | Some yj \<Rightarrow>
               NW_traceBack table X Y g m n i (j - 1) (a1 @ ''-'') (a2 @ [yj]) results)
            else (None, results))))))))"
  by pat_completeness auto
termination
  by (relation "measure (\<lambda>(table, X, Y, g, m, n, i, j, a1, a2, results). nat (i + 1) + nat (j + 1))")
     auto

text \<open>\<open>SW_traceBack\<close>: a path ends as soon as it reaches row 0 or column 0.\<close>

function SW_traceBack ::
  "table \<Rightarrow> string \<Rightarrow> string \<Rightarrow> int \<Rightarrow> int \<Rightarrow> int \<Rightarrow> int \<Rightarrow> int \<Rightarrow> string \<Rightarrow> string \<Rightarrow> results \<Rightarrow> outcome"
where
  "SW_traceBack table X Y g m n i j a1 a2 results =
    (if i < 0 \<or> j < 0 then (Some (IndexError_traceback i j), results)
     else if i = 0 \<or> j = 0 then (None, results @ [(rev a1, rev a2)])
     else
       (case py_index2 table i j of None \<Rightarrow> (Some IndexError_range, results) | Some a \<Rightarrow>
        case py_index2 table (i - 1) j of None \<Rightarrow> (Some IndexError_range, results) | Some b \<Rightarrow>
        case py_index2 table i (j - 1) of None \<Rightarrow> (Some IndexError_range, results) | Some c \<Rightarrow>
        case py_index2 table (i - 1) (j - 1) of None \<Rightarrow> (Some IndexError_range, results) | Some d \<Rightarrow>
        and_then
          (if a - d = m then
             (case py_index X i of None \<Rightarrow> (Some IndexError_range, results) | Some xi \<Rightarrow>
              case py_index Y j of None \<Rightarrow> (Some IndexError_range, results) | Some yj \<Rightarrow>
              if xi = yj
              then SW_traceBack table X Y g m n (i - 1) (j - 1) (a1 @ [xi]) (a2 @ [yj]) results
              else (None, results))
           else (None, results))
        (\<lambda>results.
        and_then
          (if a - d = n then
             (case py_index X i of None \<Rightarrow> (Some IndexError_range, results) | Some xi \<Rightarrow>
              case py_index Y j of None \<Rightarrow> (Some IndexError_range, results) | Some yj \<Rightarrow>
              if xi \<noteq> yj
              then SW_traceBack table X Y g m n (i - 1) (j - 1) (a1 @ [xi]) (a2 @ [yj]) results
              else (None, results))
           else (None, results))
        (\<lambda>results.
        and_then
          (if a - b = g then
             (case py_index X i of None \<Rightarrow> (Some IndexError_range, results) | Some xi \<Rightarrow>
              SW_traceBack table X Y g m n (i - 1) j (a1 @ [xi]) (a2 @ ''-'') results)
           else (None, results))
        (\<lambda>results.
          if a - c = g then
            (case py_index Y j of None \<Rightarrow> (Some IndexError_range, results) | Some yj \<Rightarrow>
             SW_traceBack table X Y g m n i (j - 1) (a1 @ ''-'') (a2 @ [yj]) results)
          else (None, results))))))"
  by pat_completeness auto
termination
  by (relation "measure (\<lambda>(table, X, Y, g, m, n, i, j, a1, a2, results). nat (i + 1) + nat (j + 1))")
     auto

declare NW_traceBack.simps [simp del]
declare SW_traceBack.simps [simp del]

section \<open>The two aligners\<close>

text \<open>The filled table of \<open>NeedlemanWunsch\<close>: \<open>NW_makeTable\<close>, the sentinel \<open>*\<close> put in
  front of both sequences, then the fill loop.\<close>

definition NW_table :: "string \<Rightarrow> string \<Rightarrow> int \<Rightarrow> int \<Rightarrow> int \<Rightarrow> table" where
  "NW_table X Y gap match mismatch =
     NW_fill (''*'' @ X) (''*'' @ Y) gap match mismatch (NW_makeTable X Y gap)"

text \<open>What a call returns: the list \<open>results\<close>, or the exception that escaped.\<close>

definition returned :: "outcome \<Rightarrow> error + results" where
  "returned r = (case r of (None, rs) \<Rightarrow> Inr rs | (Some e, rs) \<Rightarrow> Inl e)"

text \<open>\<open>NeedlemanWunsch\<close> with \<open>quiet=True\<close>.  The traceback starts at
  \<open>(len(X)-2, len(Y)-2)\<close>, the lengths being those of the sequences with their sentinel.\<close>

definition NeedlemanWunsch :: "string \<Rightarrow> string \<Rightarrow> int \<Rightarrow> int \<Rightarrow> int \<Rightarrow> error + results" where
  "NeedlemanWunsch X0 Y0 gap match mismatch =
    (let table = NW_table X0 Y0 gap match mismatch;
         X = ''*'' @ X0;
         Y = ''*'' @ Y0
     in returned (NW_traceBack table X Y gap match mismatch
                    (int (length X) - 2) (int (length Y) - 2) [] [] []))"

text \<open>The score the diagnostic output prints:
  \<open>table[len(table)-1][len(table[0])-1]\<close>.\<close>

definition NW_score :: "string \<Rightarrow> string \<Rightarrow> int \<Rightarrow> int \<Rightarrow> int \<Rightarrow> int" where
  "NW_score X Y gap match mismatch =
    (let table = NW_table X Y gap match mismatch
     in table ! (length table - 1) ! (length (table ! 0) - 1))"

definition SW_table :: "string \<Rightarrow> string \<Rightarrow> int \<Rightarrow> int \<Rightarrow> int \<Rightarrow> table" where
  "SW_table X Y gap match mismatch =
     SW_fill (''*'' @ X) (''*'' @ Y) gap match mismatch (SW_makeTable X Y)"

text \<open>The scan for the highest-scoring position: \<open>max_pos = (0,0)\<close>, \<open>max_val = 0\<close>, and a
  cell replaces them only when it is strictly greater.\<close>

definition SW_scan_cell :: "table \<Rightarrow> nat \<Rightarrow> nat \<Rightarrow> (nat \<times> nat) \<times> int \<Rightarrow> (nat \<times> nat) \<times> int" where
  "SW_scan_cell table i j s =
     (case s of (max_pos, max_val) \<Rightarrow>
        if table ! i ! j > max_val then ((i, j), table ! i ! j) else (max_pos, max_val))"

definition SW_locate :: "table \<Rightarrow> (nat \<times> nat) \<times> int" where
  "SW_locate table =
     fold (\<lambda>i s. fold (SW_scan_cell table i) [1..<length (table ! i)] s)
          [1..<length table] ((0, 0), 0)"

definition SmithWaterman :: "string \<Rightarrow> string \<Rightarrow> int \<Rightarrow> int \<Rightarrow> int \<Rightarrow> error + results" where
  "SmithWaterman X0 Y0 gap match mismatch =
    (let table = SW_table X0 Y0 gap match mismatch;
         X = ''*'' @ X0;
         Y = ''*'' @ Y0;
         max_pos = fst (SW_locate table)
     in returned (SW_traceBack table X Y gap match mismatch
                    (int (fst max_pos)) (int (snd max_pos)) [] [] []))"

text \<open>The located maximum, and the cell the diagnostic output prints as the score.\<close>

definition SW_max_val :: "string \<Rightarrow> string \<Rightarrow> int \<Rightarrow> int \<Rightarrow> int \<Rightarrow> int" where
  "SW_max_val X Y gap match mismatch = snd (SW_locate (SW_table X Y gap match mismatch))"

definition SW_printed_score :: "string \<Rightarrow> string \<Rightarrow> int \<Rightarrow> int \<Rightarrow> int \<Rightarrow> int" where
  "SW_printed_score X Y gap match mismatch =
    (let table = SW_table X Y gap match mismatch
     in table ! (length table - 1) ! (length (table ! 0) - 1))"

section \<open>The interpreter's recursion limit\<close>

text \<open>
  Python allows only so many nested calls (\<open>sys.getrecursionlimit()\<close>, 1000 unless it is
  changed) and raises \<open>RuntimeError: maximum recursion depth exceeded\<close> at the call that
  would go beyond.  \<open>NW_traceBack\<close> and \<open>SW_traceBack\<close> above leave that limit out; the
  two functions below are the same bodies with it.  Their first argument is the number of
  nested calls the interpreter still allows at this call: the recursion limit less the
  depth of the caller.  With none left the call raises before its body runs; otherwise
  the body runs, and each call it makes has one less.
\<close>

fun NW_traceBack_within ::
  "nat \<Rightarrow> table \<Rightarrow> string \<Rightarrow> string \<Rightarrow> int \<Rightarrow> int \<Rightarrow> int \<Rightarrow> int \<Rightarrow> int \<Rightarrow> string \<Rightarrow> string \<Rightarrow> results
     \<Rightarrow> outcome"
where
  "NW_traceBack_within 0 table X Y g m n i j a1 a2 results = (Some RuntimeError_recursion, results)"
| "NW_traceBack_within (Suc frames) table X Y g m n i j a1 a2 results =
    (if i < 0 \<or> j < 0 then (Some (IndexError_traceback i j), results)
     else
      and_then
        (if i = 0 \<and> j \<noteq> 0 then
           (case py_index Y j of None \<Rightarrow> (Some IndexError_range, results)
            | Some yj \<Rightarrow>
                NW_traceBack_within frames table X Y g m n i (j - 1) (a1 @ ''-'') (a2 @ [yj]) results)
         else (None, results))
      (\<lambda>results.
      and_then
        (if j = 0 \<and> i \<noteq> 0 then
           (case py_index X i of None \<Rightarrow> (Some IndexError_range, results)
            | Some xi \<Rightarrow>
                NW_traceBack_within frames table X Y g m n (i - 1) j (a1 @ [xi]) (a2 @ ''-'') results)
         else (None, results))
      (\<lambda>results.
        if i = 0 \<and> j = 0 then (None, results @ [(rev a1, rev a2)])
        else
         (case py_index2 table i j of None \<Rightarrow> (Some IndexError_range, results) | Some a \<Rightarrow>
          case py_index2 table (i - 1) j of None \<Rightarrow> (Some IndexError_range, results) | Some b \<Rightarrow>
          case py_index2 table i (j - 1) of None \<Rightarrow> (Some IndexError_range, results) | Some c \<Rightarrow>
          case py_index2 table (i - 1) (j - 1) of None \<Rightarrow> (Some IndexError_range, results) | Some d \<Rightarrow>
          and_then
            (if a - d = m then
               (case py_index X i of None \<Rightarrow> (Some IndexError_range, results) | Some xi \<Rightarrow>
                case py_index Y j of None \<Rightarrow> (Some IndexError_range, results) | Some yj \<Rightarrow>
                if xi = yj
                then NW_traceBack_within frames table X Y g m n (i - 1) (j - 1) (a1 @ [xi]) (a2 @ [yj]) results
                else (None, results))
             else (None, results))
          (\<lambda>results.
          and_then
            (if a - d = n then
               (case py_index X i of None \<Rightarrow> (Some IndexError_range, results) | Some xi \<Rightarrow>
                case py_index Y j of None \<Rightarrow> (Some IndexError_range, results) | Some yj \<Rightarrow>
                if xi \<noteq> yj
                then NW_traceBack_within frames table X Y g m n (i - 1) (j - 1) (a1 @ [xi]) (a2 @ [yj]) results
                else (None, results))
             else (None, results))
          (\<lambda>results.
          and_then
            (if a - b = g then
               (case py_index X i of None \<Rightarrow> (Some IndexError_range, results) | Some xi \<Rightarrow>
                NW_traceBack_within frames table X Y g m n (i - 1) j (a1 @ [xi]) (a2 @ ''-'') results)
             else (None, results))
          (\<lambda>results.
            if a - c = g then
              (case py_index Y j of None \<Rightarrow> (Some IndexError_range, results) | Some yj \<Rightarrow>
               NW_traceBack_within frames table X Y g m n i (j - 1) (a1 @ ''-'') (a2 @ [yj]) results)
            else (None, results))))))))"

fun SW_traceBack_within ::
  "nat \<Rightarrow> table \<Rightarrow> string \<Rightarrow> string \<Rightarrow> int \<Rightarrow> int \<Rightarrow> int \<Rightarrow> int \<Rightarrow> int \<Rightarrow> string \<Rightarrow> string \<Rightarrow> results
     \<Rightarrow> outcome"
where
  "SW_traceBack_within 0 table X Y g m n i j a1 a2 results = (Some RuntimeError_recursion, results)"
| "SW_traceBack_within (Suc frames) table X Y g m n i j a1 a2 results =
    (if i < 0 \<or> j < 0 then (Some (IndexError_traceback i j), results)
     else if i = 0 \<or> j = 0 then (None, results @ [(rev a1, rev a2)])
     else
       (case py_index2 table i j of None \<Rightarrow> (Some IndexError_range, results) | Some a \<Rightarrow>
        case py_index2 table (i - 1) j of None \<Rightarrow> (Some IndexError_range, results) | Some b \<Rightarrow>
        case py_index2 table i (j - 1) of None \<Rightarrow> (Some IndexError_range, results) | Some c \<Rightarrow>
        case py_index2 table (i - 1) (j - 1) of None \<Rightarrow> (Some IndexError_range, results) | Some d \<Rightarrow>
        and_then
          (if a - d = m then
             (case py_index X i of None \<Rightarrow> (Some IndexError_range, results) | Some xi \<Rightarrow>
              case py_index Y j of None \<Rightarrow> (Some IndexError_range, results) | Some yj \<Rightarrow>
              if xi = yj
              then SW_traceBack_within frames table X Y g m n (i - 1) (j - 1) (a1 @ [xi]) (a2 @ [yj]) results
              else (None, results))
           else (None, results))
        (\<lambda>results.
        and_then
          (if a - d = n then
             (case py_index X i of None \<Rightarrow> (Some IndexError_range, results) | Some xi \<Rightarrow>
              case py_index Y j of None \<Rightarrow> (Some IndexError_range, results) | Some yj \<Rightarrow>
              if xi \<noteq> yj
              then SW_traceBack_within frames table X Y g m n (i - 1) (j - 1) (a1 @ [xi]) (a2 @ [yj]) results
              else (None, results))
           else (None, results))
        (\<lambda>results.
        and_then
          (if a - b = g then
             (case py_index X i of None \<Rightarrow> (Some IndexError_range, results) | Some xi \<Rightarrow>
              SW_traceBack_within frames table X Y g m n (i - 1) j (a1 @ [xi]) (a2 @ ''-'') results)
           else (None, results))
        (\<lambda>results.
          if a - c = g then
            (case py_index Y j of None \<Rightarrow> (Some IndexError_range, results) | Some yj \<Rightarrow>
             SW_traceBack_within frames table X Y g m n i (j - 1) (a1 @ ''-'') (a2 @ [yj]) results)
          else (None, results))))))"

declare NW_traceBack_within.simps [simp del]
declare SW_traceBack_within.simps [simp del]

text \<open>The two aligners under the limit: \<open>frames\<close> is the number of nested calls the
  interpreter still allows where the aligner calls its traceback.\<close>

definition NeedlemanWunsch_within :: "nat \<Rightarrow> string \<Rightarrow> string \<Rightarrow> int \<Rightarrow> int \<Rightarrow> int \<Rightarrow> error + results" where
  "NeedlemanWunsch_within frames X0 Y0 gap match mismatch =
    (let table = NW_table X0 Y0 gap match mismatch;
         X = ''*'' @ X0;
         Y = ''*'' @ Y0
     in returned (NW_traceBack_within frames table X Y gap match mismatch
                    (int (length X) - 2) (int (length Y) - 2) [] [] []))"

definition SmithWaterman_within :: "nat \<Rightarrow> string \<Rightarrow> string \<Rightarrow> int \<Rightarrow> int \<Rightarrow> int \<Rightarrow> error + results" where
  "SmithWaterman_within frames X0 Y0 gap match mismatch =
    (let table = SW_table X0 Y0 gap match mismatch;
         X = ''*'' @ X0;
         Y = ''*'' @ Y0;
         max_pos = fst (SW_locate table)
     in returned (SW_traceBack_within frames table X Y gap match mismatch
                    (int (fst max_pos)) (int (snd max_pos)) [] [] []))"

section \<open>The recurrence and the alignments the table is measured against\<close>

text \<open>
  The recurrence of the table fill as the specification words it: boundary cells keep
  their initial value, and an interior cell is the maximum of the diagonal neighbour plus
  the symbol score, the upper neighbour plus the gap penalty and the left neighbour plus
  the gap penalty; no comparison with zero.
\<close>

fun spec_cell :: "table \<Rightarrow> string \<Rightarrow> string \<Rightarrow> int \<Rightarrow> int \<Rightarrow> int \<Rightarrow> nat \<Rightarrow> nat \<Rightarrow> int" where
  "spec_cell T0 X Y gap match mismatch 0 j = T0 ! 0 ! j"
| "spec_cell T0 X Y gap match mismatch (Suc i) 0 = T0 ! Suc i ! 0"
| "spec_cell T0 X Y gap match mismatch (Suc i) (Suc j) =
     max (spec_cell T0 X Y gap match mismatch i j + score match mismatch (X ! Suc i) (Y ! Suc j))
         (max (spec_cell T0 X Y gap match mismatch i (Suc j) + gap)
              (spec_cell T0 X Y gap match mismatch (Suc i) j + gap))"

text \<open>A table of \<open>R\<close> rows of \<open>C\<close> cells each.\<close>

definition rectangular :: "nat \<Rightarrow> nat \<Rightarrow> table \<Rightarrow> bool" where
  "rectangular R C t \<longleftrightarrow> length t = R \<and> (\<forall>row\<in>set t. length row = C)"

text \<open>Loop invariant of the fill: the cells before \<open>(i, k)\<close> in row-major order hold the
  value of the recurrence, the others their initial value.\<close>

definition filled_to ::
  "table \<Rightarrow> string \<Rightarrow> string \<Rightarrow> int \<Rightarrow> int \<Rightarrow> int \<Rightarrow> nat \<Rightarrow> nat \<Rightarrow> nat \<Rightarrow> nat \<Rightarrow> table \<Rightarrow> bool" where
  "filled_to T0 X Y gap match mismatch R C i k t \<longleftrightarrow>
     rectangular R C t \<and>
     (\<forall>r<R. \<forall>c<C. t ! r ! c =
        (if r < i \<or> (r = i \<and> c < k) then spec_cell T0 X Y gap match mismatch r c else T0 ! r ! c))"

text \<open>
  An alignment of \<open>X\<close> and \<open>Y\<close> is a list of columns; a column pairs a symbol of \<open>X\<close> or a
  gap with a symbol of \<open>Y\<close> or a gap, never two gaps, and the symbols of each side, read in
  order, are the sequence.  Its score counts matches, mismatches and gaps.
\<close>

type_synonym column = "char option \<times> char option"

definition is_alignment :: "string \<Rightarrow> string \<Rightarrow> column list \<Rightarrow> bool" where
  "is_alignment X Y cols \<longleftrightarrow>
     (None, None) \<notin> set cols \<and> List.map_filter fst cols = X \<and> List.map_filter snd cols = Y"

fun is_match :: "column \<Rightarrow> bool" where
  "is_match (Some a, Some b) = (a = b)"
| "is_match _ = False"

fun is_mismatch :: "column \<Rightarrow> bool" where
  "is_mismatch (Some a, Some b) = (a \<noteq> b)"
| "is_mismatch _ = False"

fun is_gap :: "column \<Rightarrow> bool" where
  "is_gap (Some a, Some b) = False"
| "is_gap _ = True"

definition alignment_score :: "int \<Rightarrow> int \<Rightarrow> int \<Rightarrow> column list \<Rightarrow> int" where
  "alignment_score gap match mismatch cols =
     int (length (filter is_match cols)) * match
   + int (length (filter is_mismatch cols)) * mismatch
   + int (length (filter is_gap cols)) * gap"

text \<open>The best score by recursion on the two sequences.\<close>

fun opt :: "int \<Rightarrow> int \<Rightarrow> int \<Rightarrow> string \<Rightarrow> string \<Rightarrow> int" where
  "opt gap match mismatch [] [] = 0"
| "opt gap match mismatch (x # xs) [] = opt gap match mismatch xs [] + gap"
| "opt gap match mismatch [] (y # ys) = opt gap match mismatch [] ys + gap"
| "opt gap match mismatch (x # xs) (y # ys) =
     max (opt gap match mismatch xs ys + score match mismatch x y)
         (max (opt gap match mismatch xs (y # ys) + gap)
              (opt gap match mismatch (x # xs) ys + gap))"

section \<open>Auxiliary notions of the proofs\<close>

text \<open>\<open>NW_makeTable\<close> for any number of rows and columns.\<close>

definition gap_table :: "nat \<Rightarrow> nat \<Rightarrow> int \<Rightarrow> table" where
  "gap_table R C g =
     fold (\<lambda>j t. t[0 := (t ! 0)[j := int j * g]]) [0..<C]
       (fold (\<lambda>i t. t[i := (t ! i)[0 := int i * g]]) [0..<R]
          (fold (\<lambda>i t. t @ [replicate C 0]) [0..<R] []))"

text \<open>The score of one column of an alignment.\<close>

fun column_score :: "int \<Rightarrow> int \<Rightarrow> int \<Rightarrow> column \<Rightarrow> int" where
  "column_score gap match mismatch (Some a, Some b) = score match mismatch a b"
| "column_score gap match mismatch _ = gap"

text \<open>
  Loop invariant of the scan for the maximum.  \<open>scanned C i k r c\<close>: the interior cell
  \<open>(r, c)\<close> comes before \<open>(i, k)\<close> in row-major order.  \<open>located t C i k s\<close>: the state
  \<open>s\<close> of the scan bounds every scanned cell, and it is either the initial state or a
  scanned cell with a positive value that no scanned cell of equal value precedes.
\<close>

definition scanned :: "nat \<Rightarrow> nat \<Rightarrow> nat \<Rightarrow> nat \<Rightarrow> nat \<Rightarrow> bool" where
  "scanned C i k r c \<longleftrightarrow> 1 \<le> r \<and> 1 \<le> c \<and> c < C \<and> (r < i \<or> (r = i \<and> c < k))"

definition located :: "table \<Rightarrow> nat \<Rightarrow> nat \<Rightarrow> nat \<Rightarrow> (nat \<times> nat) \<times> int \<Rightarrow> bool" where
  "located t C i k s \<longleftrightarrow>
     (\<forall>r c. scanned C i k r c \<longrightarrow> t ! r ! c \<le> snd s) \<and>
     (s = ((0, 0), 0) \<or>
      (scanned C i k (fst (fst s)) (snd (fst s)) \<and> t ! fst (fst s) ! snd (fst s) = snd s \<and> 0 < snd s \<and>
       (\<forall>r c. scanned C i k r c \<and> t ! r ! c = snd s \<longrightarrow>
              fst (fst s) < r \<or> (fst (fst s) = r \<and> snd (fst s) \<le> c))))"

text \<open>Outcomes by the errors they exclude: no index error of Python's own (so a return,
  the out-of-bounds error the traceback declares, or the recursion-limit error); a return
  or the recursion-limit error; no recursion-limit error.\<close>

definition declared_error_only :: "outcome \<Rightarrow> bool" where
  "declared_error_only r \<longleftrightarrow> fst r \<noteq> Some IndexError_range"

definition returns_or_depth :: "outcome \<Rightarrow> bool" where
  "returns_or_depth r \<longleftrightarrow> fst r = None \<or> fst r = Some RuntimeError_recursion"

definition no_recursion_error :: "outcome \<Rightarrow> bool" where
  "no_recursion_error r \<longleftrightarrow> fst r \<noteq> Some RuntimeError_recursion"

text \<open>
  A strand without its gap markers, and a list of results all of whose pairs have strands
  of equal length that read \<open>A\<close> and \<open>B\<close> once the gap markers are removed.
\<close>

definition degap :: "string \<Rightarrow> string" where
  "degap s = filter (\<lambda>c. c \<noteq> CHR ''-'') s"

definition aligns :: "string \<Rightarrow> string \<Rightarrow> results \<Rightarrow> bool" where
  "aligns A B rs \<longleftrightarrow>
     (\<forall>p\<in>set rs. length (fst p) = length (snd p) \<and> degap (fst p) = A \<and> degap (snd p) = B)"

section \<open>The notebook's own calls\<close>

text \<open>
  C5, as the code has it.  The call returns the single pair of the notebook; the maximum
  the scan locates is 36, at row 19 and column 15, and 30 is the bottom-right cell of the
  table, which the diagnostic output prints as the score.
\<close>

theorem SmithWaterman_scenario_2:
  "SmithWaterman ''AAATTGGGCGCCGGGTTTAAA'' ''GGCCCGGGAAATTTA'' (- 6) 5 (- 2) =
     Inr [(''GGCGCCGGG---TTTA'', ''GGC-CCGGGAAATTTA'')]
   \<and> SW_locate (SW_table ''AAATTGGGCGCCGGGTTTAAA'' ''GGCCCGGGAAATTTA'' (- 6) 5 (- 2)) = ((19, 15), 36)
   \<and> SW_max_val ''AAATTGGGCGCCGGGTTTAAA'' ''GGCCCGGGAAATTTA'' (- 6) 5 (- 2) = 36
   \<and> SW_printed_score ''AAATTGGGCGCCGGGTTTAAA'' ''GGCCCGGGAAATTTA'' (- 6) 5 (- 2) = 30"
  by code_simp

text \<open>C5 as stated fails: the located maximum of that call is not 30.\<close>

theorem SmithWaterman_scenario_2_maximum_not_30:
  "SW_max_val ''AAATTGGGCGCCGGGTTTAAA'' ''GGCCCGGGAAATTTA'' (- 6) 5 (- 2) \<noteq> 30"
  by code_simp

section \<open>Where the global traceback starts\<close>

text \<open>
  C1 at a failing input.  The traceback starts at \<open>(len(X)-2, len(Y)-2)\<close> with the
  sentinel counted, one cell before the bottom-right corner, so the last symbol of each
  sequence is in no strand: aligning \<open>AC\<close> with itself returns the single pair \<open>A\<close>, \<open>A\<close>,
  and removing the gap markers from its strands does not give \<open>AC\<close>.
\<close>

theorem NeedlemanWunsch_drops_last_symbol:
  "NeedlemanWunsch ''AC'' ''AC'' (- 6) 5 (- 2) = Inr [(''A'', ''A'')]
   \<and> filter (\<lambda>c. c \<noteq> CHR ''-'') ''A'' \<noteq> ''AC''"
  by code_simp

text \<open>
  C4 at a failing input.  With an empty first sequence the start row is \<open>-1\<close>, and the
  bounds check of the traceback raises; the local aligner returns the empty pair on the
  same input.
\<close>

theorem NeedlemanWunsch_empty_raises:
  "NeedlemanWunsch '''' ''AC'' (- 6) 5 (- 2) = Inl (IndexError_traceback (- 1) 1)
   \<and> SmithWaterman '''' ''AC'' (- 6) 5 (- 2) = Inr [('''', '''')]"
  by code_simp

section \<open>Row 0 and column 0 of the global traceback\<close>

text \<open>
  C6 at two failing inputs.  From the cell \<open>(0, 1)\<close> the forced step is taken, and then
  the general case runs as well, since its \<open>else\<close> hangs on the test \<open>i == 0 and j == 0\<close>
  alone: it reads row \<open>-1\<close>, the last row, and takes the left move a second time, so the
  pair comes out twice.  With gap \<open>-1\<close>, match \<open>1\<close> and mismatch \<open>-1\<close> the general case at
  the cell \<open>(0, 2)\<close> takes the diagonal move to row \<open>-1\<close>, and the call raises.
\<close>

theorem NW_traceBack_row_0_runs_general_case:
  "NW_traceBack (NW_table ''A'' ''AC'' (- 6) 5 (- 2)) ''*A'' ''*AC'' (- 6) 5 (- 2) 0 1 [] [] []
     = (None, [(''-'', ''A''), (''-'', ''A'')])
   \<and> NeedlemanWunsch ''A'' ''AC'' (- 6) 5 (- 2) = Inr [(''-'', ''A''), (''-'', ''A'')]
   \<and> NeedlemanWunsch ''A'' ''CAA'' (- 1) 1 (- 1) = Inl (IndexError_traceback (- 1) 1)"
  by code_simp

section \<open>The bounds check of the traceback\<close>

text \<open>
  C9.  A traceback of either variant called with \<open>i < 0\<close> or \<open>j < 0\<close> raises the
  out-of-bounds error with these indices and leaves the list of results as it was.  The
  table is arbitrary, also an empty one, so no cell is read first.
\<close>

theorem traceBack_out_of_bounds:
  assumes "i < 0 \<or> j < 0"
  shows "NW_traceBack table X Y g m n i j a1 a2 results = (Some (IndexError_traceback i j), results)
       \<and> SW_traceBack table X Y g m n i j a1 a2 results = (Some (IndexError_traceback i j), results)"
  using assms by (simp add: NW_traceBack.simps SW_traceBack.simps)

theorem traceBack_out_of_bounds_witness:
  "((- 1 :: int) < 0 \<or> (1 :: int) < 0)
   \<and> NW_traceBack [] ''*'' ''*AC'' (- 6) 5 (- 2) (- 1) 1 ''A'' ''A'' [(''C'', ''C'')]
       = (Some (IndexError_traceback (- 1) 1), [(''C'', ''C'')])
   \<and> SW_traceBack [] ''*'' ''*AC'' (- 6) 5 (- 2) (- 1) 1 ''A'' ''A'' [(''C'', ''C'')]
       = (Some (IndexError_traceback (- 1) 1), [(''C'', ''C'')])"
  using traceBack_out_of_bounds [of "- 1" 1 "[]" "''*''" "''*AC''" "- 6" 5 "- 2" "''A''" "''A''" "[(''C'', ''C'')]"]
  by simp

section \<open>The fill loop computes the recurrence\<close>

lemma rectangular_nth:
  "rectangular R C t \<longleftrightarrow> length t = R \<and> (\<forall>r<R. length (t ! r) = C)"
  by (auto simp: rectangular_def all_set_conv_all_nth)

lemma spec_cell_col0: "spec_cell T0 X Y gap match mismatch r 0 = T0 ! r ! 0"
  by (cases r) simp_all

lemma filled_to_start:
  "rectangular R C T0 \<Longrightarrow> filled_to T0 X Y gap match mismatch R C 1 1 T0"
  by (auto simp: filled_to_def spec_cell_col0)

lemma filled_to_next_row:
  assumes "filled_to T0 X Y gap match mismatch R C i C t"
  shows "filled_to T0 X Y gap match mismatch R C (Suc i) 1 t"
  using assms unfolding filled_to_def
  by (auto simp: spec_cell_col0 less_Suc_eq)

lemma NW_fill_cell_step:
  assumes inv: "filled_to T0 X Y gap match mismatch R C i k t"
    and i: "1 \<le> i" "i < R" and k: "1 \<le> k" "k < C"
  shows "filled_to T0 X Y gap match mismatch R C i (Suc k) (NW_fill_cell X Y gap match mismatch i k t)"
proof -
  obtain i' k' where ik: "i = Suc i'" "k = Suc k'"
    using i k by (metis One_nat_def Suc_le_D)
  have rect: "length t = R" "\<And>r. r < R \<Longrightarrow> length (t ! r) = C"
    and cells: "\<And>r c. r < R \<Longrightarrow> c < C \<Longrightarrow> t ! r ! c =
        (if r < i \<or> (r = i \<and> c < k) then spec_cell T0 X Y gap match mismatch r c else T0 ! r ! c)"
    using inv by (auto simp: filled_to_def rectangular_nth)
  have d: "t ! i' ! k' = spec_cell T0 X Y gap match mismatch i' k'"
    using cells[of i' k'] i k ik by simp
  have b: "t ! i' ! k = spec_cell T0 X Y gap match mismatch i' k"
    using cells[of i' k] i k ik by simp
  have c: "t ! i ! k' = spec_cell T0 X Y gap match mismatch i k'"
    using cells[of i k'] i k ik by simp
  have new: "NW_fill_cell X Y gap match mismatch i k t
      = t[i := (t ! i)[k := spec_cell T0 X Y gap match mismatch i k]]"
    using d b c ik by (simp add: NW_fill_cell_def Let_def)
  show ?thesis
    unfolding new filled_to_def rectangular_nth
    using rect cells i k
    by (auto simp: nth_list_update less_Suc_eq)
qed

lemma NW_fill_row_upto:
  assumes inv: "filled_to T0 X Y gap match mismatch R C i 1 t"
    and i: "1 \<le> i" "i < R"
  shows "1 \<le> k \<Longrightarrow> k \<le> C \<Longrightarrow>
     filled_to T0 X Y gap match mismatch R C i k
       (fold (NW_fill_cell X Y gap match mismatch i) [1..<k] t)"
proof (induction k)
  case 0
  then show ?case by simp
next
  case (Suc k)
  show ?case
  proof (cases "k = 0")
    case True
    then show ?thesis using inv by simp
  next
    case False
    then have k: "1 \<le> k" "k < C" using Suc.prems by auto
    have "filled_to T0 X Y gap match mismatch R C i k
       (fold (NW_fill_cell X Y gap match mismatch i) [1..<k] t)"
      using Suc.IH k by simp
    from NW_fill_cell_step[OF this i k]
    show ?thesis using k by (simp add: upt_Suc_append)
  qed
qed

lemma NW_fill_row:
  assumes inv: "filled_to T0 X Y gap match mismatch R C i 1 t"
    and i: "1 \<le> i" "i < R"
  shows "filled_to T0 X Y gap match mismatch R C (Suc i) 1
       (fold (NW_fill_cell X Y gap match mismatch i) [1..<length (t ! i)] t)"
proof -
  have len: "length (t ! i) = C"
    using inv i by (simp add: filled_to_def rectangular_nth)
  show ?thesis
  proof (cases "C = 0")
    case True
    then show ?thesis using inv len by (auto simp: filled_to_def)
  next
    case False
    then have "filled_to T0 X Y gap match mismatch R C i C
       (fold (NW_fill_cell X Y gap match mismatch i) [1..<C] t)"
      using NW_fill_row_upto[OF inv i, of C] by simp
    then show ?thesis using len filled_to_next_row by simp
  qed
qed

lemma NW_fill_rows_upto:
  assumes rect: "rectangular R C T0"
  shows "1 \<le> k \<Longrightarrow> k \<le> R \<Longrightarrow>
     filled_to T0 X Y gap match mismatch R C k 1
       (fold (\<lambda>i t. fold (NW_fill_cell X Y gap match mismatch i) [1..<length (t ! i)] t) [1..<k] T0)"
proof (induction k)
  case 0
  then show ?case by simp
next
  case (Suc k)
  show ?case
  proof (cases "k = 0")
    case True
    then show ?thesis using filled_to_start[OF rect] by simp
  next
    case False
    then have k: "1 \<le> k" "k < R" using Suc.prems by auto
    have "filled_to T0 X Y gap match mismatch R C k 1
       (fold (\<lambda>i t. fold (NW_fill_cell X Y gap match mismatch i) [1..<length (t ! i)] t) [1..<k] T0)"
      using Suc.IH k by simp
    from NW_fill_row[OF this k]
    show ?thesis using k by (simp add: upt_Suc_append)
  qed
qed

lemma NW_fill_filled:
  assumes rect: "rectangular R C T0" and R: "1 \<le> R"
  shows "filled_to T0 X Y gap match mismatch R C R 1 (NW_fill X Y gap match mismatch T0)"
proof -
  have len: "length T0 = R" using rect by (simp add: rectangular_def)
  show ?thesis
    unfolding NW_fill_def len using NW_fill_rows_upto[OF rect R] by simp
qed

lemma NW_fill_spec_cell:
  assumes rect: "rectangular R C T0" and r: "r < R" and c: "c < C"
  shows "NW_fill X Y gap match mismatch T0 ! r ! c = spec_cell T0 X Y gap match mismatch r c"
proof -
  have "1 \<le> R" using r by simp
  from NW_fill_filled[OF rect this]
  show ?thesis using r c by (simp add: filled_to_def)
qed

lemma NW_fill_rectangular:
  assumes rect: "rectangular R C T0"
  shows "rectangular R C (NW_fill X Y gap match mismatch T0)"
proof (cases "R = 0")
  case True
  then show ?thesis using rect by (simp add: NW_fill_def rectangular_def)
next
  case False
  then have "1 \<le> R" by simp
  from NW_fill_filled[OF rect this]
  show ?thesis by (simp add: filled_to_def)
qed

lemma SW_fill_eq_NW_fill:
  "SW_fill X Y gap match mismatch T0 = NW_fill X Y gap match mismatch T0"
proof -
  have "SW_fill_cell X Y gap match mismatch = NW_fill_cell X Y gap match mismatch"
    by (intro ext) (simp add: SW_fill_cell_def NW_fill_cell_def)
  then show ?thesis by (simp add: SW_fill_def NW_fill_def)
qed

text \<open>
  C8.  On every table the fill loop of \<open>SmithWaterman\<close> gives the table the fill loop
  of \<open>NeedlemanWunsch\<close> gives.  On a table with one row per symbol of \<open>X\<close> and one cell
  per symbol of \<open>Y\<close>, sentinels counted (the tables both aligners build), the filled
  table has the same shape, every cell is the value of the recurrence of the
  specification on the initial table (so row 0 and column 0 keep their initial values),
  and every interior cell is the maximum of its three filled neighbours plus the symbol
  score or the gap penalty; nothing is clamped to zero.
\<close>

theorem SW_fill_same_recurrence:
  assumes "rectangular (length X) (length Y) T0" and "X \<noteq> []" and "Y \<noteq> []"
  shows "SW_fill X Y gap match mismatch T0 = NW_fill X Y gap match mismatch T0
       \<and> rectangular (length X) (length Y) (SW_fill X Y gap match mismatch T0)
       \<and> (\<forall>i<length X. \<forall>j<length Y.
            SW_fill X Y gap match mismatch T0 ! i ! j = spec_cell T0 X Y gap match mismatch i j
          \<and> NW_fill X Y gap match mismatch T0 ! i ! j = spec_cell T0 X Y gap match mismatch i j)
       \<and> (\<forall>i\<in>{1..<length X}. \<forall>j\<in>{1..<length Y}.
            SW_fill X Y gap match mismatch T0 ! i ! j =
              max (SW_fill X Y gap match mismatch T0 ! (i - 1) ! (j - 1) + score match mismatch (X ! i) (Y ! j))
                  (max (SW_fill X Y gap match mismatch T0 ! (i - 1) ! j + gap)
                       (SW_fill X Y gap match mismatch T0 ! i ! (j - 1) + gap)))"
proof -
  have cell: "SW_fill X Y gap match mismatch T0 ! i ! j = spec_cell T0 X Y gap match mismatch i j"
    if "i < length X" "j < length Y" for i j
    using NW_fill_spec_cell[OF assms(1) that] by (simp add: SW_fill_eq_NW_fill)
  have rec: "SW_fill X Y gap match mismatch T0 ! i ! j =
              max (SW_fill X Y gap match mismatch T0 ! (i - 1) ! (j - 1) + score match mismatch (X ! i) (Y ! j))
                  (max (SW_fill X Y gap match mismatch T0 ! (i - 1) ! j + gap)
                       (SW_fill X Y gap match mismatch T0 ! i ! (j - 1) + gap))"
    if ij: "i \<in> {1..<length X}" "j \<in> {1..<length Y}" for i j
  proof -
    obtain i' j' where s: "i = Suc i'" "j = Suc j'"
      using ij by (metis One_nat_def Suc_le_D atLeastLessThan_iff)
    have "i' < length X" "j' < length Y" "i < length X" "j < length Y" using ij s by auto
    then show ?thesis using cell[of i j] cell[of i' j'] cell[of i' j] cell[of i j'] s by simp
  qed
  show ?thesis
    using cell rec NW_fill_rectangular[OF assms(1)] by (simp add: SW_fill_eq_NW_fill)
qed

theorem SW_fill_same_recurrence_witness:
  "rectangular (length ''*A'') (length ''*C'') [[0, 0], [0, 0]] \<and> ''*A'' \<noteq> [] \<and> ''*C'' \<noteq> []
   \<and> SW_fill ''*A'' ''*C'' (- 6) 5 (- 2) [[0, 0], [0, 0]] = NW_fill ''*A'' ''*C'' (- 6) 5 (- 2) [[0, 0], [0, 0]]
   \<and> SW_fill ''*A'' ''*C'' (- 6) 5 (- 2) [[0, 0], [0, 0]] ! 1 ! 1 = spec_cell [[0, 0], [0, 0]] ''*A'' ''*C'' (- 6) 5 (- 2) 1 1
   \<and> SW_fill ''*A'' ''*C'' (- 6) 5 (- 2) [[0, 0], [0, 0]] = [[0, 0], [0, - 2]]"
proof -
  have r: "rectangular (length ''*A'') (length ''*C'') [[0, 0], [0, 0]]"
    by (simp add: rectangular_def)
  have v: "SW_fill ''*A'' ''*C'' (- 6) 5 (- 2) [[0, 0], [0, 0]] = [[0, 0], [0, - 2]]"
    by code_simp
  show ?thesis
    using r v SW_fill_same_recurrence [OF r, of "- 6" 5 "- 2"]
    by (simp add: score_def)
qed

section \<open>The initial tables\<close>

lemma fold_append_rows:
  "fold (\<lambda>i t. t @ [row]) [0..<k] [] = replicate k row"
  by (induction k) (simp_all add: replicate_append_same)

lemma SW_makeTable_eq:
  "SW_makeTable X Y = replicate (length X + 1) (replicate (length Y + 1) 0)"
  unfolding SW_makeTable_def by (rule fold_append_rows)

lemma fold_set_column_0:
  "k \<le> length t \<Longrightarrow>
   fold (\<lambda>i t. t[i := (t ! i)[0 := f i]]) [0..<k] t
     = map (\<lambda>r. if r < k then (t ! r)[0 := f r] else t ! r) [0..<length t]"
proof (induction k)
  case 0
  then show ?case by (simp add: map_nth)
next
  case (Suc k)
  then have IH: "fold (\<lambda>i t. t[i := (t ! i)[0 := f i]]) [0..<k] t
     = map (\<lambda>r. if r < k then (t ! r)[0 := f r] else t ! r) [0..<length t]"
    by simp
  show ?case
    using Suc.prems
    by (simp add: IH) (auto intro!: nth_equalityI simp: nth_list_update less_Suc_eq)
qed

lemma fold_set_row_0:
  "0 < length t \<Longrightarrow> k \<le> length (t ! 0) \<Longrightarrow>
   fold (\<lambda>j t. t[0 := (t ! 0)[j := f j]]) [0..<k] t
     = t[0 := map (\<lambda>c. if c < k then f c else t ! 0 ! c) [0..<length (t ! 0)]]"
proof (induction k)
  case 0
  then show ?case by (simp add: map_nth)
next
  case (Suc k)
  then have IH: "fold (\<lambda>j t. t[0 := (t ! 0)[j := f j]]) [0..<k] t
     = t[0 := map (\<lambda>c. if c < k then f c else t ! 0 ! c) [0..<length (t ! 0)]]"
    by simp
  have row: "(map (\<lambda>c. if c < k then f c else t ! 0 ! c) [0..<length (t ! 0)])[k := f k]
      = map (\<lambda>c. if c < Suc k then f c else t ! 0 ! c) [0..<length (t ! 0)]"
    by (rule nth_equalityI) (auto simp: nth_list_update less_Suc_eq)
  show ?case
    using Suc.prems(1) by (simp add: IH row)
qed

lemma gap_table_rectangular: "rectangular R C (gap_table R C g)"
proof (cases "R = 0")
  case True
  then show ?thesis
    by (simp add: gap_table_def rectangular_def) (induction C; simp)
next
  case False
  then show ?thesis
    unfolding gap_table_def fold_append_rows
    by (simp add: fold_set_column_0 fold_set_row_0 rectangular_nth nth_list_update)
qed

lemma gap_table_nth:
  assumes "i < R" "j < C"
  shows "gap_table R C g ! i ! j = (if i = 0 then int j * g else if j = 0 then int i * g else 0)"
  using assms
  unfolding gap_table_def fold_append_rows
  by (simp add: fold_set_column_0 fold_set_row_0 nth_list_update)

lemma NW_makeTable_gap_table: "NW_makeTable X Y g = gap_table (length X + 1) (length Y + 1) g"
  unfolding NW_makeTable_def gap_table_def Let_def ..

lemma NW_makeTable_rectangular:
  "rectangular (length X + 1) (length Y + 1) (NW_makeTable X Y g)"
  unfolding NW_makeTable_gap_table by (rule gap_table_rectangular)

lemma NW_makeTable_nth:
  assumes "i \<le> length X" "j \<le> length Y"
  shows "NW_makeTable X Y g ! i ! j = (if i = 0 then int j * g else if j = 0 then int i * g else 0)"
  unfolding NW_makeTable_gap_table using assms by (intro gap_table_nth) simp_all

lemma SW_makeTable_rectangular:
  "rectangular (length X + 1) (length Y + 1) (SW_makeTable X Y)"
  unfolding SW_makeTable_eq by (simp add: rectangular_def del: replicate_Suc)

lemma SW_makeTable_nth:
  assumes "i \<le> length X" "j \<le> length Y"
  shows "SW_makeTable X Y ! i ! j = 0"
proof -
  have "replicate (length X + 1) (replicate (length Y + 1) (0::int)) ! i = replicate (length Y + 1) 0"
    using assms by (intro nth_replicate) simp
  moreover have "replicate (length Y + 1) (0::int) ! j = 0"
    using assms by (intro nth_replicate) simp
  ultimately show ?thesis unfolding SW_makeTable_eq by simp
qed

section \<open>The global score is the best score of an alignment\<close>

lemma alignment_score_Nil [simp]: "alignment_score gap match mismatch [] = 0"
  by (simp add: alignment_score_def)

lemma alignment_score_Cons [simp]:
  "alignment_score gap match mismatch (c # cols) =
     column_score gap match mismatch c + alignment_score gap match mismatch cols"
  by (cases "(gap, match, mismatch, c)" rule: column_score.cases)
     (auto simp: alignment_score_def score_def algebra_simps)

lemma alignment_score_append:
  "alignment_score gap match mismatch (cs @ ds) =
     alignment_score gap match mismatch cs + alignment_score gap match mismatch ds"
  by (induction cs) simp_all

lemma alignment_score_rev:
  "alignment_score gap match mismatch (rev cols) = alignment_score gap match mismatch cols"
  by (simp add: alignment_score_def flip: rev_filter)

lemma map_filter_rev: "List.map_filter f (rev xs) = rev (List.map_filter f xs)"
  by (simp add: List.map_filter_def rev_map rev_filter)

lemma is_alignment_rev:
  "is_alignment X Y cols \<Longrightarrow> is_alignment (rev X) (rev Y) (rev cols)"
  by (auto simp: is_alignment_def map_filter_rev)

lemma is_alignment_Nil [simp]: "is_alignment X Y [] \<longleftrightarrow> X = [] \<and> Y = []"
  by (auto simp: is_alignment_def List.map_filter_def)

lemma is_alignment_Cons:
  "is_alignment X Y (c # cols) \<longleftrightarrow>
     (case c of
        (Some a, Some b) \<Rightarrow> (\<exists>X' Y'. X = a # X' \<and> Y = b # Y' \<and> is_alignment X' Y' cols)
      | (Some a, None) \<Rightarrow> (\<exists>X'. X = a # X' \<and> is_alignment X' Y cols)
      | (None, Some b) \<Rightarrow> (\<exists>Y'. Y = b # Y' \<and> is_alignment X Y' cols)
      | (None, None) \<Rightarrow> False)"
  by (auto simp: is_alignment_def List.map_filter_def split: option.splits prod.splits)

lemma opt_upper_bound:
  "is_alignment X Y cols \<Longrightarrow> alignment_score gap match mismatch cols \<le> opt gap match mismatch X Y"
proof (induction cols arbitrary: X Y)
  case Nil
  then show ?case by simp
next
  case (Cons c cols)
  obtain a b where c: "c = (a, b)" by (cases c)
  show ?case
  proof (cases a)
    case None
    note a = this
    show ?thesis
    proof (cases b)
      case None
      then show ?thesis using Cons.prems a c by (simp add: is_alignment_Cons)
    next
      case (Some y)
      then obtain Y' where Y: "Y = y # Y'" and al: "is_alignment X Y' cols"
        using Cons.prems a c by (auto simp: is_alignment_Cons)
      from Cons.IH[OF al] show ?thesis
        using a Some c Y by (cases X) auto
    qed
  next
    case (Some x)
    note a = this
    show ?thesis
    proof (cases b)
      case None
      then obtain X' where X: "X = x # X'" and al: "is_alignment X' Y cols"
        using Cons.prems a c by (auto simp: is_alignment_Cons)
      from Cons.IH[OF al] show ?thesis
        using a None c X by (cases Y) auto
    next
      case (Some y)
      then obtain X' Y' where X: "X = x # X'" "Y = y # Y'" and al: "is_alignment X' Y' cols"
        using Cons.prems a c by (auto simp: is_alignment_Cons)
      from Cons.IH[OF al] show ?thesis
        using a Some c X by auto
    qed
  qed
qed

lemma opt_attained:
  "\<exists>cols. is_alignment X Y cols \<and> alignment_score gap match mismatch cols = opt gap match mismatch X Y"
proof (induction gap match mismatch X Y rule: opt.induct)
  case (1 gap match mismatch)
  show ?case by (rule exI[of _ "[]"]) simp
next
  case (2 gap match mismatch x xs)
  then obtain cols where "is_alignment xs [] cols"
    "alignment_score gap match mismatch cols = opt gap match mismatch xs []" by blast
  then show ?case
    by (intro exI[of _ "(Some x, None) # cols"]) (simp add: is_alignment_Cons)
next
  case (3 gap match mismatch y ys)
  then obtain cols where "is_alignment [] ys cols"
    "alignment_score gap match mismatch cols = opt gap match mismatch [] ys" by blast
  then show ?case
    by (intro exI[of _ "(None, Some y) # cols"]) (simp add: is_alignment_Cons)
next
  case (4 gap match mismatch x xs y ys)
  from 4(1) obtain d where d: "is_alignment xs ys d"
    "alignment_score gap match mismatch d = opt gap match mismatch xs ys" by blast
  from 4(2) obtain u where u: "is_alignment xs (y # ys) u"
    "alignment_score gap match mismatch u = opt gap match mismatch xs (y # ys)" by blast
  from 4(3) obtain l where l: "is_alignment (x # xs) ys l"
    "alignment_score gap match mismatch l = opt gap match mismatch (x # xs) ys" by blast
  have D: "is_alignment (x # xs) (y # ys) ((Some x, Some y) # d)"
    "alignment_score gap match mismatch ((Some x, Some y) # d)
       = opt gap match mismatch xs ys + score match mismatch x y"
    using d by (simp_all add: is_alignment_Cons)
  have U: "is_alignment (x # xs) (y # ys) ((Some x, None) # u)"
    "alignment_score gap match mismatch ((Some x, None) # u)
       = opt gap match mismatch xs (y # ys) + gap"
    using u by (simp_all add: is_alignment_Cons)
  have L: "is_alignment (x # xs) (y # ys) ((None, Some y) # l)"
    "alignment_score gap match mismatch ((None, Some y) # l)
       = opt gap match mismatch (x # xs) ys + gap"
    using l by (simp_all add: is_alignment_Cons)
  have "opt gap match mismatch (x # xs) (y # ys) = opt gap match mismatch xs ys + score match mismatch x y
      \<or> opt gap match mismatch (x # xs) (y # ys) = opt gap match mismatch xs (y # ys) + gap
      \<or> opt gap match mismatch (x # xs) (y # ys) = opt gap match mismatch (x # xs) ys + gap"
    by (simp add: max_def)
  then show ?case using D U L by metis
qed

lemma opt_rev: "opt gap match mismatch (rev X) (rev Y) = opt gap match mismatch X Y"
proof (rule antisym)
  obtain cols where c: "is_alignment (rev X) (rev Y) cols"
    "alignment_score gap match mismatch cols = opt gap match mismatch (rev X) (rev Y)"
    using opt_attained by blast
  from is_alignment_rev[OF c(1)] have "is_alignment X Y (rev cols)" by simp
  from opt_upper_bound[OF this, of gap match mismatch]
  show "opt gap match mismatch (rev X) (rev Y) \<le> opt gap match mismatch X Y"
    using c(2) by (simp add: alignment_score_rev)
next
  obtain cols where c: "is_alignment X Y cols"
    "alignment_score gap match mismatch cols = opt gap match mismatch X Y"
    using opt_attained by blast
  from opt_upper_bound[OF is_alignment_rev[OF c(1)], of gap match mismatch]
  show "opt gap match mismatch X Y \<le> opt gap match mismatch (rev X) (rev Y)"
    using c(2) by (simp add: alignment_score_rev)
qed

lemma is_alignment_length:
  "is_alignment X Y cols \<Longrightarrow> length cols \<le> length X + length Y"
proof (induction cols arbitrary: X Y)
  case Nil
  then show ?case by simp
next
  case (Cons c cols)
  then show ?case
    by (fastforce simp: is_alignment_Cons split: prod.splits option.splits)
qed

lemma finite_alignments: "finite {cols. is_alignment X Y cols}"
proof -
  have "{cols. is_alignment X Y cols}
      \<subseteq> {cols. set cols \<subseteq> (UNIV :: column set) \<and> length cols \<le> length X + length Y}"
    using is_alignment_length by auto
  moreover have "finite {cols. set cols \<subseteq> (UNIV :: column set) \<and> length cols \<le> length X + length Y}"
    by (rule finite_lists_length_le) simp
  ultimately show ?thesis by (rule finite_subset)
qed

lemma opt_is_Max:
  "opt gap match mismatch X Y = Max (alignment_score gap match mismatch ` {cols. is_alignment X Y cols})"
proof (rule sym, rule Max_eqI)
  show "finite (alignment_score gap match mismatch ` {cols. is_alignment X Y cols})"
    using finite_alignments by simp
  show "\<And>s. s \<in> alignment_score gap match mismatch ` {cols. is_alignment X Y cols}
        \<Longrightarrow> s \<le> opt gap match mismatch X Y"
    using opt_upper_bound by auto
  show "opt gap match mismatch X Y \<in> alignment_score gap match mismatch ` {cols. is_alignment X Y cols}"
    using opt_attained[of X Y gap match mismatch] by (auto simp: image_iff)
qed

lemma opt_Nil_left: "opt gap match mismatch [] ys = int (length ys) * gap"
  by (induction ys) (simp_all add: algebra_simps)

lemma opt_Nil_right: "opt gap match mismatch xs [] = int (length xs) * gap"
  by (induction xs) (simp_all add: algebra_simps)

lemma spec_cell_opt:
  "i \<le> length X \<Longrightarrow> j \<le> length Y \<Longrightarrow>
   spec_cell (NW_makeTable X Y gap) (''*'' @ X) (''*'' @ Y) gap match mismatch i j
     = opt gap match mismatch (rev (take i X)) (rev (take j Y))"
proof (induction "NW_makeTable X Y gap" "''*'' @ X" "''*'' @ Y" gap match mismatch i j rule: spec_cell.induct)
  case (1 gap match mismatch j)
  then show ?case by (simp add: NW_makeTable_nth opt_Nil_left)
next
  case (2 gap match mismatch i)
  then show ?case by (simp add: NW_makeTable_nth opt_Nil_right)
next
  case (3 gap match mismatch i j)
  then show ?case by (simp add: take_Suc_conv_app_nth)
qed

lemma NW_table_rectangular:
  "rectangular (length X + 1) (length Y + 1) (NW_table X Y gap match mismatch)"
  unfolding NW_table_def by (rule NW_fill_rectangular[OF NW_makeTable_rectangular])

lemma NW_table_opt:
  assumes "i \<le> length X" "j \<le> length Y"
  shows "NW_table X Y gap match mismatch ! i ! j = opt gap match mismatch (rev (take i X)) (rev (take j Y))"
proof -
  have "NW_table X Y gap match mismatch ! i ! j
      = spec_cell (NW_makeTable X Y gap) (''*'' @ X) (''*'' @ Y) gap match mismatch i j"
    unfolding NW_table_def using assms
    by (intro NW_fill_spec_cell[OF NW_makeTable_rectangular]) simp_all
  then show ?thesis using spec_cell_opt[OF assms] by simp
qed

lemma NW_score_corner:
  "NW_score X Y gap match mismatch = NW_table X Y gap match mismatch ! length X ! length Y"
proof -
  have "length (NW_table X Y gap match mismatch) = length X + 1"
    "length (NW_table X Y gap match mismatch ! 0) = length Y + 1"
    using NW_table_rectangular[of X Y gap match mismatch] by (simp_all add: rectangular_nth)
  then show ?thesis by (simp add: NW_score_def Let_def)
qed

lemma NW_score_is_Max:
  "NW_score X Y gap match mismatch
     = Max (alignment_score gap match mismatch ` {cols. is_alignment X Y cols})"
proof -
  have "NW_score X Y gap match mismatch = opt gap match mismatch (rev X) (rev Y)"
    using NW_table_opt[of "length X" X "length Y" Y gap match mismatch]
    by (simp add: NW_score_corner)
  also have "\<dots> = opt gap match mismatch X Y" by (rule opt_rev)
  finally show ?thesis by (simp only: opt_is_Max)
qed

text \<open>
  C3.  For sequences of length at most 5 and a negative gap penalty, the bottom-right
  cell of the filled global table is the maximum, over all alignments of \<open>X\<close> and \<open>Y\<close>,
  of matches times match plus mismatches times mismatch plus gaps times gap.  (The lemma
  \<open>NW_score_is_Max\<close> shows that neither bound is needed.)
\<close>

theorem NW_score_optimal:
  assumes "length X \<le> 5" "length Y \<le> 5" "gap < 0"
  shows "NW_score X Y gap match mismatch
     = Max (alignment_score gap match mismatch ` {cols. is_alignment X Y cols})"
  by (rule NW_score_is_Max)

theorem NW_score_optimal_witness:
  "length ''AC'' \<le> 5 \<and> length ''A'' \<le> 5 \<and> (- 6 :: int) < 0
   \<and> NW_score ''AC'' ''A'' (- 6) 5 (- 2)
       = Max (alignment_score (- 6) 5 (- 2) ` {cols. is_alignment ''AC'' ''A'' cols})
   \<and> NW_score ''AC'' ''A'' (- 6) 5 (- 2) = - 1
   \<and> is_alignment ''AC'' ''A'' [(Some CHR ''A'', Some CHR ''A''), (Some CHR ''C'', None)]
   \<and> alignment_score (- 6) 5 (- 2) [(Some CHR ''A'', Some CHR ''A''), (Some CHR ''C'', None)] = - 1"
proof -
  have v: "NW_score ''AC'' ''A'' (- 6) 5 (- 2) = - 1" by code_simp
  have a: "is_alignment ''AC'' ''A'' [(Some CHR ''A'', Some CHR ''A''), (Some CHR ''C'', None)]"
    by (simp add: is_alignment_def List.map_filter_def)
  have s: "alignment_score (- 6) 5 (- 2) [(Some CHR ''A'', Some CHR ''A''), (Some CHR ''C'', None)] = - 1"
    by (simp add: alignment_score_def)
  show ?thesis
    using v a s NW_score_optimal[of "''AC''" "''A''" "- 6" 5 "- 2"] by simp
qed

text \<open>
  C2, as the code has it by design.  For the first demonstration call of the notebook the
  optimal score, the bottom-right cell of the filled table, is \<open>-3\<close>, and it is the
  maximum score over all alignments of the two sequences.  What the list of results of
  that call holds is left open here: it depends on the cell the traceback starts at.
\<close>

theorem NeedlemanWunsch_scenario_1_score:
  "NW_score ''ATTCGGCT'' ''AGTTGGGCCCGCGT'' (- 6) 5 (- 2) = - 3
   \<and> NW_score ''ATTCGGCT'' ''AGTTGGGCCCGCGT'' (- 6) 5 (- 2)
       = Max (alignment_score (- 6) 5 (- 2) ` {cols. is_alignment ''ATTCGGCT'' ''AGTTGGGCCCGCGT'' cols})"
proof -
  have "NW_score ''ATTCGGCT'' ''AGTTGGGCCCGCGT'' (- 6) 5 (- 2) = - 3" by code_simp
  then show ?thesis using NW_score_is_Max[of "''ATTCGGCT''" "''AGTTGGGCCCGCGT''" "- 6" 5 "- 2"] by simp
qed

text \<open>C2 as stated fails: the optimal score of that call is not 1.\<close>

theorem NeedlemanWunsch_scenario_1_score_not_1:
  "NW_score ''ATTCGGCT'' ''AGTTGGGCCCGCGT'' (- 6) 5 (- 2) \<noteq> 1"
  by code_simp

section \<open>The start cell of the local traceback\<close>

lemma located_start: "located t C 1 1 ((0, 0), 0)"
  by (auto simp: located_def scanned_def)

lemma scanned_Suc:
  "1 \<le> i \<Longrightarrow> 1 \<le> k \<Longrightarrow> k < C \<Longrightarrow>
   scanned C i (Suc k) r c \<longleftrightarrow> scanned C i k r c \<or> (r = i \<and> c = k)"
  by (auto simp: scanned_def)

lemma scanned_next_row: "scanned C (Suc i) 1 r c \<longleftrightarrow> scanned C i C r c"
  by (auto simp: scanned_def)

lemma located_next_row:
  assumes "located t C i C s"
  shows "located t C (Suc i) 1 s"
  using assms unfolding located_def scanned_next_row .

lemma scanned_before: "scanned C i k r c \<Longrightarrow> r < i \<or> (r = i \<and> c \<le> k)"
  by (auto simp: scanned_def)

lemma SW_scan_cell_step:
  assumes inv: "located t C i k s" and i: "1 \<le> i" and k: "1 \<le> k" "k < C"
  shows "located t C i (Suc k) (SW_scan_cell t i k s)"
proof -
  obtain p v where s: "s = (p, v)" by (cases s)
  note sc = scanned_Suc[OF i k]
  have le: "\<And>r c. scanned C i k r c \<Longrightarrow> t ! r ! c \<le> v"
    using inv s by (simp add: located_def)
  have "0 \<le> v" using inv s by (auto simp: located_def)
  show ?thesis
  proof (cases "t ! i ! k > v")
    case True
    then have new: "SW_scan_cell t i k s = ((i, k), t ! i ! k)"
      by (simp add: SW_scan_cell_def s)
    show ?thesis
      unfolding new located_def using True le \<open>0 \<le> v\<close>
      by (fastforce simp: sc)
  next
    case False
    then have same: "SW_scan_cell t i k s = s"
      by (simp add: SW_scan_cell_def s)
    show ?thesis
      unfolding same using inv False s
      by (auto simp: located_def sc dest: scanned_before)
  qed
qed

lemma SW_scan_row_upto:
  assumes inv: "located t C i 1 s" and i: "1 \<le> i"
  shows "1 \<le> k \<Longrightarrow> k \<le> C \<Longrightarrow> located t C i k (fold (SW_scan_cell t i) [1..<k] s)"
proof (induction k)
  case 0
  then show ?case by simp
next
  case (Suc k)
  show ?case
  proof (cases "k = 0")
    case True
    then show ?thesis using inv by simp
  next
    case False
    then have k: "1 \<le> k" "k < C" using Suc.prems by auto
    have "located t C i k (fold (SW_scan_cell t i) [1..<k] s)"
      using Suc.IH k by simp
    from SW_scan_cell_step[OF this i k]
    show ?thesis using k by (simp add: upt_Suc_append)
  qed
qed

lemma SW_scan_row:
  assumes inv: "located t C i 1 s" and i: "1 \<le> i" and len: "length (t ! i) = C"
  shows "located t C (Suc i) 1 (fold (SW_scan_cell t i) [1..<length (t ! i)] s)"
proof (cases "C = 0")
  case True
  then show ?thesis using inv len by (auto simp: located_def scanned_def)
next
  case False
  then have "located t C i C (fold (SW_scan_cell t i) [1..<C] s)"
    using SW_scan_row_upto[OF inv i, of C] by simp
  then show ?thesis using len located_next_row by simp
qed

lemma SW_scan_rows_upto:
  assumes rect: "rectangular R C t"
  shows "1 \<le> k \<Longrightarrow> k \<le> R \<Longrightarrow>
     located t C k 1
       (fold (\<lambda>i s. fold (SW_scan_cell t i) [1..<length (t ! i)] s) [1..<k] ((0, 0), 0))"
proof (induction k)
  case 0
  then show ?case by simp
next
  case (Suc k)
  show ?case
  proof (cases "k = 0")
    case True
    then show ?thesis using located_start by simp
  next
    case False
    then have k: "1 \<le> k" "k < R" using Suc.prems by auto
    have len: "length (t ! k) = C" using rect k by (simp add: rectangular_nth)
    have "located t C k 1
       (fold (\<lambda>i s. fold (SW_scan_cell t i) [1..<length (t ! i)] s) [1..<k] ((0, 0), 0))"
      using Suc.IH k by simp
    from SW_scan_row[OF this k(1) len]
    show ?thesis using k by (simp add: upt_Suc_append)
  qed
qed

lemma SW_locate_located:
  assumes rect: "rectangular R C t" and R: "1 \<le> R"
  shows "located t C R 1 (SW_locate t)"
proof -
  have "length t = R" using rect by (simp add: rectangular_def)
  then show ?thesis
    unfolding SW_locate_def using SW_scan_rows_upto[OF rect R] by simp
qed

lemma SW_table_rectangular:
  "rectangular (length X + 1) (length Y + 1) (SW_table X Y gap match mismatch)"
  unfolding SW_table_def SW_fill_eq_NW_fill
  by (rule NW_fill_rectangular[OF SW_makeTable_rectangular])

lemma scanned_interior:
  "scanned (n + 1) (m + 1) 1 r c \<longleftrightarrow> r \<in> {1..m} \<and> c \<in> {1..n}"
  by (auto simp: scanned_def)

lemma SW_locate_SW_table:
  "located (SW_table X Y gap match mismatch) (length Y + 1) (length X + 1) 1
     (SW_locate (SW_table X Y gap match mismatch))"
  by (rule SW_locate_located[OF SW_table_rectangular]) simp

lemma SW_traceBack_origin:
  "SW_traceBack t X Y g m n 0 0 [] [] [] = (None, [([], [])])"
  by (simp add: SW_traceBack.simps)

lemma SmithWaterman_start:
  "SmithWaterman X Y gap match mismatch =
     returned (SW_traceBack (SW_table X Y gap match mismatch) (''*'' @ X) (''*'' @ Y) gap match mismatch
        (int (fst (fst (SW_locate (SW_table X Y gap match mismatch)))))
        (int (snd (fst (SW_locate (SW_table X Y gap match mismatch))))) [] [] [])"
  by (simp add: SmithWaterman_def Let_def)

text \<open>
  C7.  \<open>SmithWaterman\<close> starts its traceback at the position the scan returns.  If some
  interior cell of the filled table is positive, that position is an interior cell
  holding the maximum of the interior cells, and it precedes in row-major order every
  interior cell holding the same value.  If no interior cell is positive (or there is
  none), the position is \<open>(0, 0)\<close>, the maximum is 0 and the call returns the single
  pair of empty strands; so it does for two empty sequences, where the located maximum
  and the printed score are 0.
\<close>

theorem SW_start_cell:
  "(let T = SW_table X Y gap match mismatch; p = fst (SW_locate T); v = snd (SW_locate T) in
     SmithWaterman X Y gap match mismatch =
       returned (SW_traceBack T (''*'' @ X) (''*'' @ Y) gap match mismatch
                   (int (fst p)) (int (snd p)) [] [] [])
   \<and> ((\<exists>i\<in>{1..length X}. \<exists>j\<in>{1..length Y}. 0 < T ! i ! j) \<longrightarrow>
        fst p \<in> {1..length X} \<and> snd p \<in> {1..length Y} \<and> T ! fst p ! snd p = v \<and>
        (\<forall>i\<in>{1..length X}. \<forall>j\<in>{1..length Y}.
            T ! i ! j \<le> v \<and> (T ! i ! j = v \<longrightarrow> fst p < i \<or> (fst p = i \<and> snd p \<le> j))))
   \<and> ((\<forall>i\<in>{1..length X}. \<forall>j\<in>{1..length Y}. T ! i ! j \<le> 0) \<longrightarrow>
        p = (0, 0) \<and> v = 0 \<and> SmithWaterman X Y gap match mismatch = Inr [('''', '''')]))
   \<and> SmithWaterman '''' '''' gap match mismatch = Inr [('''', '''')]
   \<and> SW_max_val '''' '''' gap match mismatch = 0
   \<and> SW_printed_score '''' '''' gap match mismatch = 0"
proof -
  define T where "T = SW_table X Y gap match mismatch"
  define p where "p = fst (SW_locate T)"
  define v where "v = snd (SW_locate T)"
  have s: "SW_locate T = (p, v)" by (simp add: p_def v_def)
  have loc: "located T (length Y + 1) (length X + 1) 1 (p, v)"
    using SW_locate_SW_table[of X Y gap match mismatch] by (simp add: T_def[symmetric] s)
  have all: "\<forall>r c. r \<in> {1..length X} \<and> c \<in> {1..length Y} \<longrightarrow> T ! r ! c \<le> v"
    and alt: "(p, v) = ((0, 0), 0) \<or>
      ((fst p \<in> {1..length X} \<and> snd p \<in> {1..length Y}) \<and> T ! fst p ! snd p = v \<and> 0 < v \<and>
       (\<forall>r c. (r \<in> {1..length X} \<and> c \<in> {1..length Y}) \<and> T ! r ! c = v
            \<longrightarrow> fst p < r \<or> (fst p = r \<and> snd p \<le> c)))"
    using loc unfolding located_def scanned_interior fst_conv snd_conv by blast+
  have le: "T ! i ! j \<le> v" if "i \<in> {1..length X}" "j \<in> {1..length Y}" for i j
    using all that by blast
  have cases: "(p = (0, 0) \<and> v = 0) \<or>
      (fst p \<in> {1..length X} \<and> snd p \<in> {1..length Y} \<and> T ! fst p ! snd p = v \<and> 0 < v \<and>
       (\<forall>i\<in>{1..length X}. \<forall>j\<in>{1..length Y}. T ! i ! j = v \<longrightarrow> fst p < i \<or> (fst p = i \<and> snd p \<le> j)))"
    using alt by blast
  have start: "SmithWaterman X Y gap match mismatch =
       returned (SW_traceBack T (''*'' @ X) (''*'' @ Y) gap match mismatch
                   (int (fst p)) (int (snd p)) [] [] [])"
    unfolding SmithWaterman_start p_def T_def ..
  have pos: "fst p \<in> {1..length X} \<and> snd p \<in> {1..length Y} \<and> T ! fst p ! snd p = v \<and>
        (\<forall>i\<in>{1..length X}. \<forall>j\<in>{1..length Y}.
            T ! i ! j \<le> v \<and> (T ! i ! j = v \<longrightarrow> fst p < i \<or> (fst p = i \<and> snd p \<le> j)))"
    if "\<exists>i\<in>{1..length X}. \<exists>j\<in>{1..length Y}. 0 < T ! i ! j"
  proof -
    from that obtain i j where ij: "i \<in> {1..length X}" "j \<in> {1..length Y}" "0 < T ! i ! j" by blast
    then have "0 < v" using le[of i j] by simp
    then show ?thesis using cases le by auto
  qed
  have none: "p = (0, 0) \<and> v = 0 \<and> SmithWaterman X Y gap match mismatch = Inr [('''', '''')]"
    if all: "\<forall>i\<in>{1..length X}. \<forall>j\<in>{1..length Y}. T ! i ! j \<le> 0"
  proof -
    have "p = (0, 0) \<and> v = 0" using cases all by fastforce
    then show ?thesis
      using start by (simp add: SW_traceBack_origin returned_def)
  qed
  have empty: "SmithWaterman '''' '''' gap match mismatch = Inr [('''', '''')]
      \<and> SW_max_val '''' '''' gap match mismatch = 0
      \<and> SW_printed_score '''' '''' gap match mismatch = 0"
    by (simp add: SmithWaterman_def SW_max_val_def SW_printed_score_def SW_table_def SW_makeTable_def
          SW_fill_def SW_locate_def SW_traceBack_origin returned_def Let_def)
  show ?thesis
    unfolding Let_def T_def[symmetric] p_def[symmetric] v_def[symmetric]
    using start pos none empty by blast
qed

theorem SW_start_cell_witness:
  "SW_table ''A'' ''A'' (- 6) 5 (- 2) = [[0, 0], [0, 5]]
   \<and> (\<exists>i\<in>{1..length ''A''}. \<exists>j\<in>{1..length ''A''}. 0 < SW_table ''A'' ''A'' (- 6) 5 (- 2) ! i ! j)
   \<and> SW_locate (SW_table ''A'' ''A'' (- 6) 5 (- 2)) = ((1, 1), 5)
   \<and> SW_table ''A'' ''C'' (- 6) 5 (- 2) = [[0, 0], [0, - 2]]
   \<and> SW_locate (SW_table ''A'' ''C'' (- 6) 5 (- 2)) = ((0, 0), 0)
   \<and> SmithWaterman ''A'' ''C'' (- 6) 5 (- 2) = Inr [('''', '''')]
   \<and> SmithWaterman '''' '''' (- 6) 5 (- 2) = Inr [('''', '''')]"
proof -
  have t1: "SW_table ''A'' ''A'' (- 6) 5 (- 2) = [[0, 0], [0, 5]]" by code_simp
  have t2: "SW_table ''A'' ''C'' (- 6) 5 (- 2) = [[0, 0], [0, - 2]]" by code_simp
  have h1: "\<exists>i\<in>{1..length ''A''}. \<exists>j\<in>{1..length ''A''}. 0 < SW_table ''A'' ''A'' (- 6) 5 (- 2) ! i ! j"
    by (simp add: t1)
  have h2: "\<forall>i\<in>{1..length ''A''}. \<forall>j\<in>{1..length ''C''}. SW_table ''A'' ''C'' (- 6) 5 (- 2) ! i ! j \<le> 0"
    by (simp add: t2)
  have p1: "SW_locate (SW_table ''A'' ''A'' (- 6) 5 (- 2)) = ((1, 1), 5)"
    using h1 SW_start_cell[of "''A''" "''A''" "- 6" 5 "- 2"]
    by (auto simp: Let_def t1 prod_eq_iff)
  have p2: "SW_locate (SW_table ''A'' ''C'' (- 6) 5 (- 2)) = ((0, 0), 0)
      \<and> SmithWaterman ''A'' ''C'' (- 6) 5 (- 2) = Inr [('''', '''')]
      \<and> SmithWaterman '''' '''' (- 6) 5 (- 2) = Inr [('''', '''')]"
    using h2 SW_start_cell[of "''A''" "''C''" "- 6" 5 "- 2"]
    by (auto simp: Let_def prod_eq_iff)
  show ?thesis using t1 t2 h1 p1 p2 by simp
qed

section \<open>Termination and outcomes of the traceback\<close>

text \<open>
  This section is about \<open>NW_traceBack\<close> and \<open>SW_traceBack\<close>, the tracebacks with the
  interpreter's recursion limit left out: their call relations are well-founded, and on a
  table that matches the sequences they never raise Python's own index error.  The next
  section brings the limit in.
\<close>

lemma py_index_some:
  assumes "- int (length xs) \<le> k" "k < int (length xs)"
  shows "\<exists>x. py_index xs k = Some x \<and> x \<in> set xs"
  using assms by (auto simp: py_index_def)

lemma py_index2_some:
  assumes rect: "rectangular R C t"
    and i: "- int R \<le> i" "i < int R" and j: "- int C \<le> j" "j < int C"
  shows "\<exists>a. py_index2 t i j = Some a"
proof -
  have len: "length t = R" using rect by (simp add: rectangular_def)
  obtain row where row: "py_index t i = Some row" "row \<in> set t"
    using py_index_some[of t i] i len by auto
  then have "length row = C" using rect by (simp add: rectangular_def)
  then obtain a where "py_index row j = Some a"
    using py_index_some[of row j] j by auto
  then show ?thesis using row by (simp add: py_index2_def)
qed

lemma fst_and_then:
  "fst (and_then r k) = (case fst r of None \<Rightarrow> fst (k (snd r)) | Some e \<Rightarrow> Some e)"
  by (auto simp: and_then_def split: prod.splits option.splits)

lemma declared_error_only_simps [simp]:
  "declared_error_only (None, rs)"
  "declared_error_only (Some (IndexError_traceback i j), rs)"
  by (simp_all add: declared_error_only_def)

lemma and_then_declared_error_only:
  assumes "declared_error_only r" and "\<And>rs. declared_error_only (k rs)"
  shows "declared_error_only (and_then r k)"
  using assms by (auto simp: and_then_def declared_error_only_def split: prod.splits option.splits)

lemma NW_traceBack_declared_error_only:
  assumes rect: "rectangular (length X) (length Y) table"
  shows "i < int (length X) \<Longrightarrow> j < int (length Y) \<Longrightarrow>
   declared_error_only (NW_traceBack table X Y g m n i j a1 a2 results)"
proof (induction "nat (i + 1) + nat (j + 1)" arbitrary: i j a1 a2 results m n rule: less_induct)
  case less
  show ?case
  proof (cases "i < 0 \<or> j < 0")
    case True
    then show ?thesis by (simp add: NW_traceBack.simps)
  next
    case False
    then have ij: "0 \<le> i" "0 \<le> j" by auto
    obtain xi where xi: "py_index X i = Some xi"
      using py_index_some[of X i] ij less.prems by auto
    obtain yj where yj: "py_index Y j = Some yj"
      using py_index_some[of Y j] ij less.prems by auto
    obtain a where a: "py_index2 table i j = Some a"
      using py_index2_some[OF rect, of i j] ij less.prems by auto
    obtain b where b: "py_index2 table (i - 1) j = Some b"
      using py_index2_some[OF rect, of "i - 1" j] ij less.prems by auto
    obtain c where c: "py_index2 table i (j - 1) = Some c"
      using py_index2_some[OF rect, of i "j - 1"] ij less.prems by auto
    obtain d where d: "py_index2 table (i - 1) (j - 1) = Some d"
      using py_index2_some[OF rect, of "i - 1" "j - 1"] ij less.prems by auto
    have up: "declared_error_only (NW_traceBack table X Y g m n (i - 1) j b1 b2 rs)"
      for b1 b2 rs m n
      using ij less.prems by (intro less.hyps) auto
    have left: "declared_error_only (NW_traceBack table X Y g m n i (j - 1) b1 b2 rs)"
      for b1 b2 rs m n
      using ij less.prems by (intro less.hyps) auto
    have diag: "declared_error_only (NW_traceBack table X Y g m n (i - 1) (j - 1) b1 b2 rs)"
      for b1 b2 rs m n
      using ij less.prems by (intro less.hyps) auto
    show ?thesis
      apply (subst NW_traceBack.simps)
      using False xi yj a b c d up left diag
      apply (auto intro!: and_then_declared_error_only)
      done
  qed
qed

lemma SW_traceBack_returns:
  assumes rect: "rectangular (length X) (length Y) table"
  shows "0 \<le> i \<Longrightarrow> i < int (length X) \<Longrightarrow> 0 \<le> j \<Longrightarrow> j < int (length Y) \<Longrightarrow>
   fst (SW_traceBack table X Y g m n i j a1 a2 results) = None"
proof (induction "nat (i + 1) + nat (j + 1)" arbitrary: i j a1 a2 results m n rule: less_induct)
  case less
  have nneg: "\<not> (i < 0 \<or> j < 0)" using less.prems by simp
  show ?case
  proof (cases "i = 0 \<or> j = 0")
    case True
    then show ?thesis using nneg by (simp add: SW_traceBack.simps)
  next
    case False
    then have ij: "0 < i" "0 < j" using less.prems by auto
    obtain xi where xi: "py_index X i = Some xi"
      using py_index_some[of X i] ij less.prems by auto
    obtain yj where yj: "py_index Y j = Some yj"
      using py_index_some[of Y j] ij less.prems by auto
    obtain a where a: "py_index2 table i j = Some a"
      using py_index2_some[OF rect, of i j] ij less.prems by auto
    obtain b where b: "py_index2 table (i - 1) j = Some b"
      using py_index2_some[OF rect, of "i - 1" j] ij less.prems by auto
    obtain c where c: "py_index2 table i (j - 1) = Some c"
      using py_index2_some[OF rect, of i "j - 1"] ij less.prems by auto
    obtain d where d: "py_index2 table (i - 1) (j - 1) = Some d"
      using py_index2_some[OF rect, of "i - 1" "j - 1"] ij less.prems by auto
    have up: "fst (SW_traceBack table X Y g m n (i - 1) j b1 b2 rs) = None" for b1 b2 rs m n
      using ij less.prems by (intro less.hyps) auto
    have left: "fst (SW_traceBack table X Y g m n i (j - 1) b1 b2 rs) = None" for b1 b2 rs m n
      using ij less.prems by (intro less.hyps) auto
    have diag: "fst (SW_traceBack table X Y g m n (i - 1) (j - 1) b1 b2 rs) = None" for b1 b2 rs m n
      using ij less.prems by (intro less.hyps) auto
    show ?thesis
      using False nneg
      by (subst SW_traceBack.simps)
         (simp add: fst_and_then xi yj a b c d up left diag split: option.splits)
  qed
qed

lemma NW_traceBack_rel_decreases:
  assumes "NW_traceBack_rel (t', X', Y', g', m', n', i', j', a1', a2', r') (t, X, Y, g, m, n, i, j, a1, a2, r)"
  shows "0 \<le> i \<and> 0 \<le> j \<and> i' + j' < i + j \<and> - 1 \<le> i' \<and> - 1 \<le> j'"
  using assms by (cases rule: NW_traceBack_rel.cases) auto

lemma SW_traceBack_rel_decreases:
  assumes "SW_traceBack_rel (t', X', Y', g', m', n', i', j', a1', a2', r') (t, X, Y, g, m, n, i, j, a1, a2, r)"
  shows "0 < i \<and> 0 < j \<and> i' + j' < i + j \<and> 0 \<le> i' \<and> 0 \<le> j'"
  using assms by (cases rule: SW_traceBack_rel.cases) auto


lemma NW_traceBack_dom_all: "NW_traceBack_dom x"
proof -
  have "wfp NW_traceBack_rel"
    unfolding wfp_def
  proof (rule wf_subset[OF wf_measure[of "\<lambda>(table, X, Y, g, m, n, i, j, a1, a2, results). nat (i + 1) + nat (j + 1)"]], rule subsetI, clarify)
    fix t' :: table and X' Y' :: string and g' m' n' i' j' :: int and a1' a2' :: string and r' :: results
      and t :: table and X Y :: string and g m n i j :: int and a1 a2 :: string and r :: results
    assume "NW_traceBack_rel (t', X', Y', g', m', n', i', j', a1', a2', r') (t, X, Y, g, m, n, i, j, a1, a2, r)"
    from NW_traceBack_rel_decreases[OF this]
    show "((t', X', Y', g', m', n', i', j', a1', a2', r'), (t, X, Y, g, m, n, i, j, a1, a2, r))
        \<in> measure (\<lambda>(table, X, Y, g, m, n, i, j, a1, a2, results). nat (i + 1) + nat (j + 1))"
      by auto
  qed
  then show ?thesis by (rule accp_wfpD)
qed

lemma SW_traceBack_dom_all: "SW_traceBack_dom x"
proof -
  have "wfp SW_traceBack_rel"
    unfolding wfp_def
  proof (rule wf_subset[OF wf_measure[of "\<lambda>(table, X, Y, g, m, n, i, j, a1, a2, results). nat (i + 1) + nat (j + 1)"]], rule subsetI, clarify)
    fix t' :: table and X' Y' :: string and g' m' n' i' j' :: int and a1' a2' :: string and r' :: results
      and t :: table and X Y :: string and g m n i j :: int and a1 a2 :: string and r :: results
    assume "SW_traceBack_rel (t', X', Y', g', m', n', i', j', a1', a2', r') (t, X, Y, g, m, n, i, j, a1, a2, r)"
    from SW_traceBack_rel_decreases[OF this]
    show "((t', X', Y', g', m', n', i', j', a1', a2', r'), (t, X, Y, g, m, n, i, j, a1, a2, r))
        \<in> measure (\<lambda>(table, X, Y, g, m, n, i, j, a1, a2, results). nat (i + 1) + nat (j + 1))"
      by auto
  qed
  then show ?thesis by (rule accp_wfpD)
qed

lemma returned_declared_error_only:
  "declared_error_only r \<Longrightarrow> returned r \<noteq> Inl IndexError_range"
  by (auto simp: declared_error_only_def returned_def split: prod.splits option.splits)

lemma NeedlemanWunsch_declared_error_only:
  "NeedlemanWunsch X Y gap match mismatch \<noteq> Inl IndexError_range"
proof -
  have rect: "rectangular (length (''*'' @ X)) (length (''*'' @ Y)) (NW_table X Y gap match mismatch)"
    using NW_table_rectangular[of X Y gap match mismatch] by simp
  have "declared_error_only
      (NW_traceBack (NW_table X Y gap match mismatch) (''*'' @ X) (''*'' @ Y) gap match mismatch
         (int (length (''*'' @ X)) - 2) (int (length (''*'' @ Y)) - 2) [] [] [])"
    by (rule NW_traceBack_declared_error_only[OF rect]) simp_all
  then show ?thesis
    unfolding NeedlemanWunsch_def Let_def by (rule returned_declared_error_only)
qed

lemma SW_locate_in_table:
  "fst (fst (SW_locate (SW_table X Y gap match mismatch))) \<le> length X
   \<and> snd (fst (SW_locate (SW_table X Y gap match mismatch))) \<le> length Y"
  using SW_locate_SW_table[of X Y gap match mismatch]
  unfolding located_def scanned_interior by auto

lemma SmithWaterman_returns:
  "\<exists>rs. SmithWaterman X Y gap match mismatch = Inr rs"
proof -
  have rect: "rectangular (length (''*'' @ X)) (length (''*'' @ Y)) (SW_table X Y gap match mismatch)"
    using SW_table_rectangular[of X Y gap match mismatch] by simp
  have "fst (SW_traceBack (SW_table X Y gap match mismatch) (''*'' @ X) (''*'' @ Y) gap match mismatch
        (int (fst (fst (SW_locate (SW_table X Y gap match mismatch)))))
        (int (snd (fst (SW_locate (SW_table X Y gap match mismatch))))) [] [] []) = None"
    using SW_locate_in_table[of X Y gap match mismatch]
    by (intro SW_traceBack_returns[OF rect]) simp_all
  then show ?thesis
    unfolding SmithWaterman_start
    by (auto simp: returned_def split: prod.splits option.splits)
qed

section \<open>The traceback under the recursion limit\<close>

text \<open>
  With enough nested calls allowed, a traceback under the limit is the traceback without
  it; with any number allowed, it ends in a return, in the declared out-of-bounds error
  (the global one only) or in the recursion-limit error.
\<close>

lemma NW_traceBack_within_enough:
  "nat (i + 1) + nat (j + 1) + 1 \<le> frames \<Longrightarrow>
   NW_traceBack_within frames table X Y g m n i j a1 a2 results
     = NW_traceBack table X Y g m n i j a1 a2 results"
proof (induction frames arbitrary: i j a1 a2 results m n)
  case 0
  then show ?case by simp
next
  case (Suc frames)
  show ?case
  proof (cases "i < 0 \<or> j < 0")
    case True
    then show ?thesis by (simp add: NW_traceBack_within.simps NW_traceBack.simps)
  next
    case False
    then have ij: "0 \<le> i" "0 \<le> j" by auto
    have up: "NW_traceBack_within frames table X Y g m n (i - 1) j b1 b2 rs
        = NW_traceBack table X Y g m n (i - 1) j b1 b2 rs" for b1 b2 rs m n
      using ij Suc.prems by (intro Suc.IH) auto
    have left: "NW_traceBack_within frames table X Y g m n i (j - 1) b1 b2 rs
        = NW_traceBack table X Y g m n i (j - 1) b1 b2 rs" for b1 b2 rs m n
      using ij Suc.prems by (intro Suc.IH) auto
    have diag: "NW_traceBack_within frames table X Y g m n (i - 1) (j - 1) b1 b2 rs
        = NW_traceBack table X Y g m n (i - 1) (j - 1) b1 b2 rs" for b1 b2 rs m n
      using ij Suc.prems by (intro Suc.IH) auto
    show ?thesis
      by (subst NW_traceBack_within.simps, subst NW_traceBack.simps) (simp only: up left diag)
  qed
qed

lemma SW_traceBack_within_enough:
  "nat (i + 1) + nat (j + 1) + 1 \<le> frames \<Longrightarrow>
   SW_traceBack_within frames table X Y g m n i j a1 a2 results
     = SW_traceBack table X Y g m n i j a1 a2 results"
proof (induction frames arbitrary: i j a1 a2 results m n)
  case 0
  then show ?case by simp
next
  case (Suc frames)
  show ?case
  proof (cases "i < 0 \<or> j < 0")
    case True
    then show ?thesis by (simp add: SW_traceBack_within.simps SW_traceBack.simps)
  next
    case False
    then have ij: "0 \<le> i" "0 \<le> j" by auto
    have up: "SW_traceBack_within frames table X Y g m n (i - 1) j b1 b2 rs
        = SW_traceBack table X Y g m n (i - 1) j b1 b2 rs" for b1 b2 rs m n
      using ij Suc.prems by (intro Suc.IH) auto
    have left: "SW_traceBack_within frames table X Y g m n i (j - 1) b1 b2 rs
        = SW_traceBack table X Y g m n i (j - 1) b1 b2 rs" for b1 b2 rs m n
      using ij Suc.prems by (intro Suc.IH) auto
    have diag: "SW_traceBack_within frames table X Y g m n (i - 1) (j - 1) b1 b2 rs
        = SW_traceBack table X Y g m n (i - 1) (j - 1) b1 b2 rs" for b1 b2 rs m n
      using ij Suc.prems by (intro Suc.IH) auto
    show ?thesis
      by (subst SW_traceBack_within.simps, subst SW_traceBack.simps) (simp only: up left diag)
  qed
qed

lemma declared_error_only_recursion [simp]:
  "declared_error_only (Some RuntimeError_recursion, rs)"
  by (simp add: declared_error_only_def)

lemma NW_traceBack_within_declared_error_only:
  assumes rect: "rectangular (length X) (length Y) table"
  shows "i < int (length X) \<Longrightarrow> j < int (length Y) \<Longrightarrow>
   declared_error_only (NW_traceBack_within frames table X Y g m n i j a1 a2 results)"
proof (induction frames arbitrary: i j a1 a2 results m n)
  case 0
  then show ?case by (simp add: NW_traceBack_within.simps)
next
  case (Suc frames)
  show ?case
  proof (cases "i < 0 \<or> j < 0")
    case True
    then show ?thesis by (simp add: NW_traceBack_within.simps)
  next
    case False
    then have ij: "0 \<le> i" "0 \<le> j" by auto
    obtain xi where xi: "py_index X i = Some xi"
      using py_index_some[of X i] ij Suc.prems by auto
    obtain yj where yj: "py_index Y j = Some yj"
      using py_index_some[of Y j] ij Suc.prems by auto
    obtain a where a: "py_index2 table i j = Some a"
      using py_index2_some[OF rect, of i j] ij Suc.prems by auto
    obtain b where b: "py_index2 table (i - 1) j = Some b"
      using py_index2_some[OF rect, of "i - 1" j] ij Suc.prems by auto
    obtain c where c: "py_index2 table i (j - 1) = Some c"
      using py_index2_some[OF rect, of i "j - 1"] ij Suc.prems by auto
    obtain d where d: "py_index2 table (i - 1) (j - 1) = Some d"
      using py_index2_some[OF rect, of "i - 1" "j - 1"] ij Suc.prems by auto
    have up: "declared_error_only (NW_traceBack_within frames table X Y g m n (i - 1) j b1 b2 rs)"
      for b1 b2 rs m n
      using Suc.prems by (intro Suc.IH) auto
    have left: "declared_error_only (NW_traceBack_within frames table X Y g m n i (j - 1) b1 b2 rs)"
      for b1 b2 rs m n
      using Suc.prems by (intro Suc.IH) auto
    have diag: "declared_error_only (NW_traceBack_within frames table X Y g m n (i - 1) (j - 1) b1 b2 rs)"
      for b1 b2 rs m n
      using Suc.prems by (intro Suc.IH) auto
    show ?thesis
      apply (subst NW_traceBack_within.simps)
      using False xi yj a b c d up left diag
      apply (auto intro!: and_then_declared_error_only)
      done
  qed
qed

lemma returns_or_depth_simps [simp]:
  "returns_or_depth (None, rs)"
  "returns_or_depth (Some RuntimeError_recursion, rs)"
  by (simp_all add: returns_or_depth_def)

lemma and_then_returns_or_depth:
  assumes "returns_or_depth r" and "\<And>rs. returns_or_depth (k rs)"
  shows "returns_or_depth (and_then r k)"
  using assms by (auto simp: and_then_def returns_or_depth_def split: prod.splits option.splits)

lemma SW_traceBack_within_returns_or_depth:
  assumes rect: "rectangular (length X) (length Y) table"
  shows "0 \<le> i \<Longrightarrow> i < int (length X) \<Longrightarrow> 0 \<le> j \<Longrightarrow> j < int (length Y) \<Longrightarrow>
   returns_or_depth (SW_traceBack_within frames table X Y g m n i j a1 a2 results)"
proof (induction frames arbitrary: i j a1 a2 results m n)
  case 0
  then show ?case by (simp add: SW_traceBack_within.simps)
next
  case (Suc frames)
  have nneg: "\<not> (i < 0 \<or> j < 0)" using Suc.prems by simp
  show ?case
  proof (cases "i = 0 \<or> j = 0")
    case True
    then show ?thesis using nneg by (simp add: SW_traceBack_within.simps)
  next
    case False
    then have ij: "0 < i" "0 < j" using Suc.prems by auto
    obtain xi where xi: "py_index X i = Some xi"
      using py_index_some[of X i] ij Suc.prems by auto
    obtain yj where yj: "py_index Y j = Some yj"
      using py_index_some[of Y j] ij Suc.prems by auto
    obtain a where a: "py_index2 table i j = Some a"
      using py_index2_some[OF rect, of i j] ij Suc.prems by auto
    obtain b where b: "py_index2 table (i - 1) j = Some b"
      using py_index2_some[OF rect, of "i - 1" j] ij Suc.prems by auto
    obtain c where c: "py_index2 table i (j - 1) = Some c"
      using py_index2_some[OF rect, of i "j - 1"] ij Suc.prems by auto
    obtain d where d: "py_index2 table (i - 1) (j - 1) = Some d"
      using py_index2_some[OF rect, of "i - 1" "j - 1"] ij Suc.prems by auto
    have up: "returns_or_depth (SW_traceBack_within frames table X Y g m n (i - 1) j b1 b2 rs)"
      for b1 b2 rs m n
      using ij Suc.prems by (intro Suc.IH) auto
    have left: "returns_or_depth (SW_traceBack_within frames table X Y g m n i (j - 1) b1 b2 rs)"
      for b1 b2 rs m n
      using ij Suc.prems by (intro Suc.IH) auto
    have diag: "returns_or_depth (SW_traceBack_within frames table X Y g m n (i - 1) (j - 1) b1 b2 rs)"
      for b1 b2 rs m n
      using ij Suc.prems by (intro Suc.IH) auto
    show ?thesis
      apply (subst SW_traceBack_within.simps)
      using False nneg xi yj a b c d up left diag
      apply (auto intro!: and_then_returns_or_depth)
      done
  qed
qed

lemma returned_cases_declared:
  assumes "declared_error_only r"
  shows "(\<exists>rs. returned r = Inr rs) \<or> (\<exists>a b. returned r = Inl (IndexError_traceback a b))
       \<or> returned r = Inl RuntimeError_recursion"
proof (cases r)
  case (Pair e rs)
  show ?thesis
  proof (cases e)
    case None
    then show ?thesis using Pair by (simp add: returned_def)
  next
    case (Some err)
    then show ?thesis using Pair assms
      by (cases err) (simp_all add: returned_def declared_error_only_def)
  qed
qed

lemma returned_cases_returns_or_depth:
  assumes "returns_or_depth r"
  shows "(\<exists>rs. returned r = Inr rs) \<or> returned r = Inl RuntimeError_recursion"
  using assms by (cases r) (auto simp: returned_def returns_or_depth_def)

lemma NeedlemanWunsch_within_outcomes:
  "(\<exists>rs. NeedlemanWunsch_within frames X Y gap match mismatch = Inr rs)
   \<or> (\<exists>a b. NeedlemanWunsch_within frames X Y gap match mismatch = Inl (IndexError_traceback a b))
   \<or> NeedlemanWunsch_within frames X Y gap match mismatch = Inl RuntimeError_recursion"
proof -
  have rect: "rectangular (length (''*'' @ X)) (length (''*'' @ Y)) (NW_table X Y gap match mismatch)"
    using NW_table_rectangular[of X Y gap match mismatch] by simp
  have "declared_error_only
      (NW_traceBack_within frames (NW_table X Y gap match mismatch) (''*'' @ X) (''*'' @ Y) gap match mismatch
         (int (length (''*'' @ X)) - 2) (int (length (''*'' @ Y)) - 2) [] [] [])"
    by (rule NW_traceBack_within_declared_error_only[OF rect]) simp_all
  then show ?thesis
    unfolding NeedlemanWunsch_within_def Let_def by (rule returned_cases_declared)
qed

lemma SmithWaterman_within_outcomes:
  "(\<exists>rs. SmithWaterman_within frames X Y gap match mismatch = Inr rs)
   \<or> SmithWaterman_within frames X Y gap match mismatch = Inl RuntimeError_recursion"
proof -
  have rect: "rectangular (length (''*'' @ X)) (length (''*'' @ Y)) (SW_table X Y gap match mismatch)"
    using SW_table_rectangular[of X Y gap match mismatch] by simp
  have "returns_or_depth (SW_traceBack_within frames (SW_table X Y gap match mismatch) (''*'' @ X) (''*'' @ Y) gap match mismatch
        (int (fst (fst (SW_locate (SW_table X Y gap match mismatch)))))
        (int (snd (fst (SW_locate (SW_table X Y gap match mismatch))))) [] [] [])"
    using SW_locate_in_table[of X Y gap match mismatch]
    by (intro SW_traceBack_within_returns_or_depth[OF rect]) simp_all
  then show ?thesis
    unfolding SmithWaterman_within_def Let_def by (rule returned_cases_returns_or_depth)
qed

lemma NeedlemanWunsch_within_enough:
  assumes "length X + length Y + 1 \<le> frames"
  shows "NeedlemanWunsch_within frames X Y gap match mismatch = NeedlemanWunsch X Y gap match mismatch"
  unfolding NeedlemanWunsch_within_def NeedlemanWunsch_def Let_def
  using assms by (subst NW_traceBack_within_enough) simp_all

lemma SmithWaterman_within_enough:
  assumes "length X + length Y + 3 \<le> frames"
  shows "SmithWaterman_within frames X Y gap match mismatch = SmithWaterman X Y gap match mismatch"
  unfolding SmithWaterman_within_def SmithWaterman_def Let_def
  using assms SW_locate_in_table[of X Y gap match mismatch]
  by (subst SW_traceBack_within_enough) auto

text \<open>
  Two equal sequences of \<open>k\<close> copies of one symbol, under the default scores: the filled
  local table holds \<open>5 * min i j\<close>, the scan starts the traceback at \<open>(k, k)\<close>, and the
  match move nests a call for each step down the diagonal.  With at most \<open>k\<close> nested calls
  allowed the local aligner raises the recursion-limit error.
\<close>

lemma py_index_in_range:
  "0 \<le> k \<Longrightarrow> k < int (length xs) \<Longrightarrow> py_index xs k = Some (xs ! nat k)"
  by (simp add: py_index_def)

lemma py_index2_in_range:
  assumes rect: "rectangular R C t"
    and i: "0 \<le> i" "i < int R" and j: "0 \<le> j" "j < int C"
  shows "py_index2 t i j = Some (t ! nat i ! nat j)"
proof -
  have "length t = R" "length (t ! nat i) = C"
    using rect i by (simp_all add: rectangular_nth)
  then show ?thesis using i j by (simp add: py_index2_def py_index_in_range)
qed

lemma spec_cell_all_equal:
  "i \<le> k \<Longrightarrow> j \<le> k \<Longrightarrow>
   spec_cell (SW_makeTable (replicate k c) (replicate k c)) (''*'' @ replicate k c) (''*'' @ replicate k c)
     (- 6) 5 (- 2) i j = 5 * int (min i j)"
proof (induction "SW_makeTable (replicate k c) (replicate k c)" "''*'' @ replicate k c" "''*'' @ replicate k c"
    "- 6 :: int" "5 :: int" "- 2 :: int" i j rule: spec_cell.induct)
  case (1 j)
  then show ?case by (simp add: SW_makeTable_nth)
next
  case (2 i)
  then show ?case by (simp add: SW_makeTable_nth)
next
  case (3 i j)
  then show ?case by (simp add: score_def min_def max_def)
qed

lemma SW_table_all_equal:
  assumes "i \<le> k" "j \<le> k"
  shows "SW_table (replicate k c) (replicate k c) (- 6) 5 (- 2) ! i ! j = 5 * int (min i j)"
proof -
  have "SW_table (replicate k c) (replicate k c) (- 6) 5 (- 2) ! i ! j
      = spec_cell (SW_makeTable (replicate k c) (replicate k c)) (''*'' @ replicate k c) (''*'' @ replicate k c)
          (- 6) 5 (- 2) i j"
    unfolding SW_table_def SW_fill_eq_NW_fill using assms
    by (intro NW_fill_spec_cell[OF SW_makeTable_rectangular]) simp_all
  then show ?thesis using spec_cell_all_equal[OF assms] by simp
qed

lemma SW_locate_all_equal:
  assumes k: "1 \<le> k"
  shows "SW_locate (SW_table (replicate k c) (replicate k c) (- 6) 5 (- 2)) = ((k, k), 5 * int k)"
proof -
  let ?T = "SW_table (replicate k c) (replicate k c) (- 6) 5 (- 2)"
  obtain p v where s: "SW_locate ?T = (p, v)" by (cases "SW_locate ?T")
  have loc: "located ?T (length (replicate k c) + 1) (length (replicate k c) + 1) 1 (p, v)"
    using SW_locate_SW_table[of "replicate k c" "replicate k c" "- 6" 5 "- 2"] by (simp only: s)
  have all: "\<forall>r c'. r \<in> {1..k} \<and> c' \<in> {1..k} \<longrightarrow> ?T ! r ! c' \<le> v"
    and alt: "(p, v) = ((0, 0), 0) \<or>
      ((fst p \<in> {1..k} \<and> snd p \<in> {1..k}) \<and> ?T ! fst p ! snd p = v)"
    using loc unfolding located_def scanned_interior fst_conv snd_conv length_replicate by blast+
  have "?T ! k ! k \<le> v" using all k by simp
  then have big: "5 * int k \<le> v"
    using SW_table_all_equal[where i = k and j = k and k = k and c = c] by simp
  then have "(p, v) \<noteq> ((0, 0), 0)" using k by auto
  then have p: "fst p \<in> {1..k}" "snd p \<in> {1..k}" "?T ! fst p ! snd p = v" using alt by blast+
  then have "v = 5 * int (min (fst p) (snd p))"
    using SW_table_all_equal[where i = "fst p" and j = "snd p" and k = k and c = c] by simp
  then have "fst p = k \<and> snd p = k \<and> v = 5 * int k" using big p by (auto simp: min_def split: if_splits)
  then show ?thesis using s by (simp add: prod_eq_iff)
qed

lemma SW_traceBack_within_all_equal_raises:
  "d \<le> nat i \<Longrightarrow> i \<le> int k \<Longrightarrow>
   fst (SW_traceBack_within d (SW_table (replicate k c) (replicate k c) (- 6) 5 (- 2))
          (''*'' @ replicate k c) (''*'' @ replicate k c) (- 6) 5 (- 2) i i a1 a2 rs)
     = Some RuntimeError_recursion"
proof (induction d arbitrary: i a1 a2 rs)
  case 0
  then show ?case by (simp add: SW_traceBack_within.simps)
next
  case (Suc d)
  let ?T = "SW_table (replicate k c) (replicate k c) (- 6) 5 (- 2)"
  let ?X = "''*'' @ replicate k c"
  have i: "1 \<le> i" "i \<le> int k" using Suc.prems by auto
  have rect: "rectangular (k + 1) (k + 1) ?T"
    using SW_table_rectangular[of "replicate k c" "replicate k c" "- 6" 5 "- 2"] by simp
  have mins: "min (nat (i - 1)) (nat i) = nat (i - 1)" "min (nat i) (nat (i - 1)) = nat (i - 1)"
    using i by simp_all
  have cell: "?T ! nat p ! nat q = 5 * int (min (nat p) (nat q))" if "p \<le> int k" "q \<le> int k" for p q
    using that by (intro SW_table_all_equal) simp_all
  have a: "py_index2 ?T i i = Some (5 * i)"
    using py_index2_in_range[OF rect, of i i] i cell[of i i] by simp
  have b: "py_index2 ?T (i - 1) i = Some (5 * (i - 1))"
    using py_index2_in_range[OF rect, of "i - 1" i] i cell[of "i - 1" i] by (simp add: mins)
  have c': "py_index2 ?T i (i - 1) = Some (5 * (i - 1))"
    using py_index2_in_range[OF rect, of i "i - 1"] i cell[of i "i - 1"] by (simp add: mins)
  have d': "py_index2 ?T (i - 1) (i - 1) = Some (5 * (i - 1))"
    using py_index2_in_range[OF rect, of "i - 1" "i - 1"] i cell[of "i - 1" "i - 1"] by simp
  have x: "py_index ?X i = Some c"
  proof -
    obtain q where q: "nat i = Suc q" using i by (cases "nat i") auto
    then have "q < k" using i by auto
    then show ?thesis using i q by (simp add: py_index_def)
  qed
  have deeper: "fst (SW_traceBack_within d ?T ?X ?X (- 6) 5 (- 2) (i - 1) (i - 1) (a1 @ [c]) (a2 @ [c]) rs)
      = Some RuntimeError_recursion"
    using Suc.prems by (intro Suc.IH) auto
  show ?case
    apply (subst SW_traceBack_within.simps)
    using i a b c' d' x deeper
    apply (simp add: fst_and_then)
    done
qed

lemma SmithWaterman_within_all_equal_raises:
  assumes "frames \<le> k" "1 \<le> k"
  shows "SmithWaterman_within frames (replicate k c) (replicate k c) (- 6) 5 (- 2) = Inl RuntimeError_recursion"
proof -
  have "fst (SW_traceBack_within frames (SW_table (replicate k c) (replicate k c) (- 6) 5 (- 2))
          (''*'' @ replicate k c) (''*'' @ replicate k c) (- 6) 5 (- 2) (int k) (int k) [] [] [])
     = Some RuntimeError_recursion"
    using assms by (intro SW_traceBack_within_all_equal_raises) simp_all
  then show ?thesis
    unfolding SmithWaterman_within_def Let_def SW_locate_all_equal[OF assms(2)]
    by (auto simp: returned_def split: prod.splits option.splits)
qed

text \<open>
  C10 as stated fails: on two sequences of 1100 symbols \<open>A\<close>, with 1000 nested calls
  allowed (the default recursion limit, of which the caller has used some), the local
  aligner ends in the recursion-limit error, which is neither a value nor the declared
  out-of-bounds error.
\<close>

theorem SmithWaterman_exceeds_recursion_limit:
  "SmithWaterman_within 1000 (replicate 1100 CHR ''A'') (replicate 1100 CHR ''A'') (- 6) 5 (- 2)
     = Inl RuntimeError_recursion"
  by (rule SmithWaterman_within_all_equal_raises) simp_all

lemma no_recursion_error_simps [simp]:
  "no_recursion_error (None, rs)"
  "no_recursion_error (Some (IndexError_traceback i j), rs)"
  "no_recursion_error (Some IndexError_range, rs)"
  by (simp_all add: no_recursion_error_def)

lemma and_then_no_recursion_error:
  assumes "no_recursion_error r" and "\<And>rs. no_recursion_error (k rs)"
  shows "no_recursion_error (and_then r k)"
  using assms by (auto simp: and_then_def no_recursion_error_def split: prod.splits option.splits)

lemma NW_traceBack_no_recursion_error:
  "no_recursion_error (NW_traceBack table X Y g m n i j a1 a2 results)"
proof (induction "nat (i + 1) + nat (j + 1)" arbitrary: i j a1 a2 results m n rule: less_induct)
  case less
  show ?case
  proof (cases "i < 0 \<or> j < 0")
    case True
    then show ?thesis by (simp add: NW_traceBack.simps)
  next
    case False
    then have ij: "0 \<le> i" "0 \<le> j" by auto
    have up: "no_recursion_error (NW_traceBack table X Y g m n (i - 1) j b1 b2 rs)" for b1 b2 rs m n
      using ij by (intro less.hyps) auto
    have left: "no_recursion_error (NW_traceBack table X Y g m n i (j - 1) b1 b2 rs)" for b1 b2 rs m n
      using ij by (intro less.hyps) auto
    have diag: "no_recursion_error (NW_traceBack table X Y g m n (i - 1) (j - 1) b1 b2 rs)" for b1 b2 rs m n
      using ij by (intro less.hyps) auto
    show ?thesis
      apply (subst NW_traceBack.simps)
      using False up left diag
      apply (auto intro!: and_then_no_recursion_error split: option.splits)
      done
  qed
qed

lemma NeedlemanWunsch_outcomes:
  "(\<exists>rs. NeedlemanWunsch X Y gap match mismatch = Inr rs)
   \<or> (\<exists>a b. NeedlemanWunsch X Y gap match mismatch = Inl (IndexError_traceback a b))"
proof -
  let ?r = "NW_traceBack (NW_table X Y gap match mismatch) (''*'' @ X) (''*'' @ Y) gap match mismatch
              (int (length (''*'' @ X)) - 2) (int (length (''*'' @ Y)) - 2) [] [] []"
  have rect: "rectangular (length (''*'' @ X)) (length (''*'' @ Y)) (NW_table X Y gap match mismatch)"
    using NW_table_rectangular[of X Y gap match mismatch] by simp
  have 1: "declared_error_only ?r"
    by (rule NW_traceBack_declared_error_only[OF rect]) simp_all
  have 2: "returned ?r \<noteq> Inl RuntimeError_recursion"
    using NW_traceBack_no_recursion_error[of "NW_table X Y gap match mismatch" "''*'' @ X" "''*'' @ Y"
        gap match mismatch "int (length (''*'' @ X)) - 2" "int (length (''*'' @ Y)) - 2" "[]" "[]" "[]"]
    by (auto simp: no_recursion_error_def returned_def split: prod.splits option.splits)
  show ?thesis
    unfolding NeedlemanWunsch_def Let_def using returned_cases_declared[OF 1] 2 by blast
qed

text \<open>
  C10, as the code has it.  Every call of either traceback is in the accessible part of
  its call relation: no chain of recursive calls goes on for ever.  A recursive call is
  only made from a cell with \<open>i \<ge> 0\<close> and \<open>j \<ge> 0\<close>, and it strictly decreases \<open>i + j\<close>;
  so from a start cell with \<open>i \<ge> 0\<close> and \<open>j \<ge> 0\<close>, \<open>i + j + 3\<close> nested calls are enough
  for the traceback under the limit to be the traceback without it.  On a table with one
  row per symbol of \<open>X\<close> and one cell per symbol of \<open>Y\<close> (sentinels counted), started at a
  cell of the table and with any number of nested calls allowed, the global traceback
  returns, raises the out-of-bounds error it declares or raises the recursion-limit
  error, and the local traceback returns or raises the recursion-limit error.  So does
  each aligner; and when \<open>len(X) + len(Y) + 3\<close> nested calls are allowed, the global
  aligner returns or raises the declared error and the local aligner returns.
\<close>

theorem traceBack_terminates_within_limit:
  "NW_traceBack_dom (table, X, Y, g, m, n, i, j, a1, a2, results)
   \<and> SW_traceBack_dom (table, X, Y, g, m, n, i, j, a1, a2, results)
   \<and> (NW_traceBack_rel (table', X', Y', g', m', n', i', j', a1', a2', results')
                        (table, X, Y, g, m, n, i, j, a1, a2, results)
        \<longrightarrow> 0 \<le> i \<and> 0 \<le> j \<and> i' + j' < i + j)
   \<and> (SW_traceBack_rel (table', X', Y', g', m', n', i', j', a1', a2', results')
                        (table, X, Y, g, m, n, i, j, a1, a2, results)
        \<longrightarrow> 0 \<le> i \<and> 0 \<le> j \<and> i' + j' < i + j)
   \<and> (0 \<le> i \<and> 0 \<le> j \<and> nat i + nat j + 3 \<le> frames
        \<longrightarrow> NW_traceBack_within frames table X Y g m n i j a1 a2 results
              = NW_traceBack table X Y g m n i j a1 a2 results
          \<and> SW_traceBack_within frames table X Y g m n i j a1 a2 results
              = SW_traceBack table X Y g m n i j a1 a2 results)
   \<and> (rectangular (length X) (length Y) table \<and> 0 \<le> i \<and> i < int (length X) \<and> 0 \<le> j \<and> j < int (length Y)
        \<longrightarrow> (fst (NW_traceBack_within frames table X Y g m n i j a1 a2 results) = None
             \<or> (\<exists>a b. fst (NW_traceBack_within frames table X Y g m n i j a1 a2 results)
                         = Some (IndexError_traceback a b))
             \<or> fst (NW_traceBack_within frames table X Y g m n i j a1 a2 results) = Some RuntimeError_recursion)
          \<and> (fst (SW_traceBack_within frames table X Y g m n i j a1 a2 results) = None
             \<or> fst (SW_traceBack_within frames table X Y g m n i j a1 a2 results) = Some RuntimeError_recursion))
   \<and> ((\<exists>rs. NeedlemanWunsch_within frames X0 Y0 gap match mismatch = Inr rs)
        \<or> (\<exists>a b. NeedlemanWunsch_within frames X0 Y0 gap match mismatch = Inl (IndexError_traceback a b))
        \<or> NeedlemanWunsch_within frames X0 Y0 gap match mismatch = Inl RuntimeError_recursion)
   \<and> ((\<exists>rs. SmithWaterman_within frames X0 Y0 gap match mismatch = Inr rs)
        \<or> SmithWaterman_within frames X0 Y0 gap match mismatch = Inl RuntimeError_recursion)
   \<and> (length X0 + length Y0 + 3 \<le> frames
        \<longrightarrow> ((\<exists>rs. NeedlemanWunsch_within frames X0 Y0 gap match mismatch = Inr rs)
              \<or> (\<exists>a b. NeedlemanWunsch_within frames X0 Y0 gap match mismatch = Inl (IndexError_traceback a b)))
          \<and> (\<exists>rs. SmithWaterman_within frames X0 Y0 gap match mismatch = Inr rs))"
proof -
  have enough: "NW_traceBack_within frames table X Y g m n i j a1 a2 results
              = NW_traceBack table X Y g m n i j a1 a2 results
          \<and> SW_traceBack_within frames table X Y g m n i j a1 a2 results
              = SW_traceBack table X Y g m n i j a1 a2 results"
    if "0 \<le> i \<and> 0 \<le> j \<and> nat i + nat j + 3 \<le> frames"
  proof -
    have "nat (i + 1) + nat (j + 1) + 1 \<le> frames" using that by auto
    then show ?thesis
      by (simp add: NW_traceBack_within_enough SW_traceBack_within_enough)
  qed
  have outcomes: "(fst (NW_traceBack_within frames table X Y g m n i j a1 a2 results) = None
             \<or> (\<exists>a b. fst (NW_traceBack_within frames table X Y g m n i j a1 a2 results)
                         = Some (IndexError_traceback a b))
             \<or> fst (NW_traceBack_within frames table X Y g m n i j a1 a2 results) = Some RuntimeError_recursion)
          \<and> (fst (SW_traceBack_within frames table X Y g m n i j a1 a2 results) = None
             \<or> fst (SW_traceBack_within frames table X Y g m n i j a1 a2 results) = Some RuntimeError_recursion)"
    if h: "rectangular (length X) (length Y) table \<and> 0 \<le> i \<and> i < int (length X) \<and> 0 \<le> j \<and> j < int (length Y)"
  proof -
    have "declared_error_only (NW_traceBack_within frames table X Y g m n i j a1 a2 results)"
      using h by (intro NW_traceBack_within_declared_error_only) simp_all
    then have 1: "fst (NW_traceBack_within frames table X Y g m n i j a1 a2 results) = None
             \<or> (\<exists>a b. fst (NW_traceBack_within frames table X Y g m n i j a1 a2 results)
                         = Some (IndexError_traceback a b))
             \<or> fst (NW_traceBack_within frames table X Y g m n i j a1 a2 results) = Some RuntimeError_recursion"
      unfolding declared_error_only_def
      by (cases "fst (NW_traceBack_within frames table X Y g m n i j a1 a2 results)")
         (simp, metis error.exhaust)
    have "returns_or_depth (SW_traceBack_within frames table X Y g m n i j a1 a2 results)"
      using h by (intro SW_traceBack_within_returns_or_depth) simp_all
    then show ?thesis using 1 by (simp add: returns_or_depth_def)
  qed
  have aligners: "((\<exists>rs. NeedlemanWunsch_within frames X0 Y0 gap match mismatch = Inr rs)
              \<or> (\<exists>a b. NeedlemanWunsch_within frames X0 Y0 gap match mismatch = Inl (IndexError_traceback a b)))
          \<and> (\<exists>rs. SmithWaterman_within frames X0 Y0 gap match mismatch = Inr rs)"
    if h: "length X0 + length Y0 + 3 \<le> frames"
  proof -
    have "NeedlemanWunsch_within frames X0 Y0 gap match mismatch = NeedlemanWunsch X0 Y0 gap match mismatch"
      using h by (intro NeedlemanWunsch_within_enough) simp
    moreover have "SmithWaterman_within frames X0 Y0 gap match mismatch = SmithWaterman X0 Y0 gap match mismatch"
      using h by (intro SmithWaterman_within_enough)
    ultimately show ?thesis
      using NeedlemanWunsch_outcomes[of X0 Y0 gap match mismatch]
        SmithWaterman_returns[of X0 Y0 gap match mismatch] by simp
  qed
  have nw_calls: "NW_traceBack_rel (table', X', Y', g', m', n', i', j', a1', a2', results')
                        (table, X, Y, g, m, n, i, j, a1, a2, results)
        \<longrightarrow> 0 \<le> i \<and> 0 \<le> j \<and> i' + j' < i + j"
    using NW_traceBack_rel_decreases[of table' X' Y' g' m' n' i' j' a1' a2' results' table X Y g m n i j a1 a2 results]
    by simp
  have sw_calls: "SW_traceBack_rel (table', X', Y', g', m', n', i', j', a1', a2', results')
                        (table, X, Y, g, m, n, i, j, a1, a2, results)
        \<longrightarrow> 0 \<le> i \<and> 0 \<le> j \<and> i' + j' < i + j"
    using SW_traceBack_rel_decreases[of table' X' Y' g' m' n' i' j' a1' a2' results' table X Y g m n i j a1 a2 results]
    by auto
  show ?thesis
    using NW_traceBack_dom_all[of "(table, X, Y, g, m, n, i, j, a1, a2, results)"]
      SW_traceBack_dom_all[of "(table, X, Y, g, m, n, i, j, a1, a2, results)"]
      nw_calls sw_calls enough outcomes aligners
      NeedlemanWunsch_within_outcomes[of frames X0 Y0 gap match mismatch]
      SmithWaterman_within_outcomes[of frames X0 Y0 gap match mismatch]
    by blast
qed

theorem traceBack_terminates_within_limit_witness:
  "NW_traceBack_rel ([[0, - 6], [- 6, 5]], ''*A'', ''*A'', - 6, 5, - 2, 0, 0, ''A'', ''A'', [])
                    ([[0, - 6], [- 6, 5]], ''*A'', ''*A'', - 6, 5, - 2, 1, 1, '''', '''', [])
   \<and> SW_traceBack_rel ([[0, - 6], [- 6, 5]], ''*A'', ''*A'', - 6, 5, - 2, 0, 0, ''A'', ''A'', [])
                    ([[0, - 6], [- 6, 5]], ''*A'', ''*A'', - 6, 5, - 2, 1, 1, '''', '''', [])
   \<and> (0::int) + 0 < 1 + 1
   \<and> nat 1 + nat 1 + 3 \<le> (5::nat)
   \<and> rectangular (length ''*A'') (length ''*A'') [[0, - 6], [- 6, 5]]
   \<and> (1::int) < int (length ''*A'')
   \<and> NW_traceBack_within 5 [[0, - 6], [- 6, 5]] ''*A'' ''*A'' (- 6) 5 (- 2) 1 1 '''' '''' []
       = NW_traceBack [[0, - 6], [- 6, 5]] ''*A'' ''*A'' (- 6) 5 (- 2) 1 1 '''' '''' []
   \<and> NW_traceBack_within 5 [[0, - 6], [- 6, 5]] ''*A'' ''*A'' (- 6) 5 (- 2) 1 1 '''' '''' [] = (None, [(''A'', ''A'')])
   \<and> SW_traceBack_within 5 [[0, - 6], [- 6, 5]] ''*A'' ''*A'' (- 6) 5 (- 2) 1 1 '''' '''' [] = (None, [(''A'', ''A'')])
   \<and> SW_traceBack_within 1 [[0, - 6], [- 6, 5]] ''*A'' ''*A'' (- 6) 5 (- 2) 1 1 '''' '''' []
       = (Some RuntimeError_recursion, [])
   \<and> length ''A'' + length ''A'' + 3 \<le> (5::nat)
   \<and> NeedlemanWunsch_within 5 ''A'' ''A'' (- 6) 5 (- 2) = Inr [('''', '''')]
   \<and> SmithWaterman_within 5 ''A'' ''A'' (- 6) 5 (- 2) = Inr [(''A'', ''A'')]"
proof -
  have nw: "NW_traceBack_rel ([[0, - 6], [- 6, 5]], ''*A'', ''*A'', - 6, 5, - 2, 1 - 1, 1 - 1, '''' @ [CHR ''A''], '''' @ [CHR ''A''], [])
                    ([[0, - 6], [- 6, 5]], ''*A'', ''*A'', - 6, 5, - 2, 1, 1, '''', '''', [])"
    by (rule NW_traceBack_rel.intros(3)[where ?x2.0 = 5 and ?x2a = "- 6" and ?x2b = "- 6" and ?x2c = 0])
       (simp_all add: py_index2_def py_index_def)
  have sw: "SW_traceBack_rel ([[0, - 6], [- 6, 5]], ''*A'', ''*A'', - 6, 5, - 2, 1 - 1, 1 - 1, '''' @ [CHR ''A''], '''' @ [CHR ''A''], [])
                    ([[0, - 6], [- 6, 5]], ''*A'', ''*A'', - 6, 5, - 2, 1, 1, '''', '''', [])"
    by (rule SW_traceBack_rel.intros(1)[where ?x2.0 = 5 and ?x2a = "- 6" and ?x2b = "- 6" and ?x2c = 0])
       (simp_all add: py_index2_def py_index_def)
  have r: "rectangular (length ''*A'') (length ''*A'') [[0, - 6], [- 6, 5]]"
    by (simp add: rectangular_def)
  have v1: "NW_traceBack_within 5 [[0, - 6], [- 6, 5]] ''*A'' ''*A'' (- 6) 5 (- 2) 1 1 '''' '''' [] = (None, [(''A'', ''A'')])"
    by code_simp
  have v2: "SW_traceBack_within 5 [[0, - 6], [- 6, 5]] ''*A'' ''*A'' (- 6) 5 (- 2) 1 1 '''' '''' [] = (None, [(''A'', ''A'')])"
    by code_simp
  have v3: "SW_traceBack_within 1 [[0, - 6], [- 6, 5]] ''*A'' ''*A'' (- 6) 5 (- 2) 1 1 '''' '''' []
       = (Some RuntimeError_recursion, [])"
    by code_simp
  have v4: "NeedlemanWunsch_within 5 ''A'' ''A'' (- 6) 5 (- 2) = Inr [('''', '''')]" by code_simp
  have v5: "SmithWaterman_within 5 ''A'' ''A'' (- 6) 5 (- 2) = Inr [(''A'', ''A'')]" by code_simp
  show ?thesis
    using nw sw r v1 v2 v3 v4 v5
      traceBack_terminates_within_limit[of "[[0, - 6], [- 6, 5]]" "''*A''" "''*A''" "- 6" 5 "- 2" 1 1 "''''" "''''" "[]"
        "[[0, - 6], [- 6, 5]]" "''*A''" "''*A''" "- 6" 5 "- 2" 0 0 "''A''" "''A''" "[]" 5 "''A''" "''A''" "- 6" 5 "- 2"]
    by simp
qed

section \<open>What the strands of the global aligner read\<close>

text \<open>
  The traceback of \<open>NeedlemanWunsch\<close> starts one cell before the bottom-right corner.
  When neither sequence contains the gap marker, every pair of a call that returns has
  strands of equal length, and without their gap markers the strands are the two
  sequences without their last symbol.
\<close>

lemma aligns_and_then:
  assumes "aligns A B (snd r)" and "\<And>rs. aligns A B rs \<Longrightarrow> aligns A B (snd (k rs))"
  shows "aligns A B (snd (and_then r k))"
  using assms by (auto simp: and_then_def split: prod.splits option.splits)

lemma degap_Cons: "degap (x # s) = (if x = CHR ''-'' then degap s else x # degap s)"
  by (simp add: degap_def)

lemma py_index_sentinel:
  assumes "0 < i" "i \<le> int (length A)"
  shows "py_index (s # A @ A') i = Some (A ! nat (i - 1))"
proof -
  obtain k where k: "nat i = Suc k" using assms by (cases "nat i") auto
  then have "k < length A" "nat (i - 1) = k" using assms by auto
  then show ?thesis using assms k by (simp add: py_index_def nth_append)
qed

lemma drop_pred:
  assumes "0 < i" "i \<le> int (length A)"
  shows "A ! nat (i - 1) # drop (nat i) A = drop (nat (i - 1)) A"
proof -
  obtain k where k: "nat i = Suc k" using assms by (cases "nat i") auto
  then have "k < length A" "nat (i - 1) = k" using assms by auto
  then show ?thesis using k by (simp add: Cons_nth_drop_Suc)
qed

lemma NW_traceBack_aligns:
  assumes gapA: "CHR ''-'' \<notin> set A" and gapB: "CHR ''-'' \<notin> set B"
  shows "aligns A B results \<Longrightarrow> length a1 = length a2 \<Longrightarrow>
     (0 \<le> i \<and> 0 \<le> j \<longrightarrow> i \<le> int (length A) \<and> j \<le> int (length B)
         \<and> degap (rev a1) = drop (nat i) A \<and> degap (rev a2) = drop (nat j) B) \<Longrightarrow>
     aligns A B (snd (NW_traceBack table (s # A @ A') (s' # B @ B') g m n i j a1 a2 results))"
proof (induction "nat (i + 1) + nat (j + 1)" arbitrary: i j a1 a2 results m n rule: less_induct)
  case less
  let ?X = "s # A @ A'" and ?Y = "s' # B @ B'"
  show ?case
  proof (cases "i < 0 \<or> j < 0")
    case True
    then show ?thesis using less.prems by (simp add: NW_traceBack.simps)
  next
    case False
    then have ij: "0 \<le> i" "0 \<le> j" by auto
    then have inv: "i \<le> int (length A)" "j \<le> int (length B)"
      "degap (rev a1) = drop (nat i) A" "degap (rev a2) = drop (nat j) B"
      using less.prems by auto
    note len = \<open>length a1 = length a2\<close>
    have up: "aligns A B (snd (NW_traceBack table ?X ?Y g m n (i - 1) j (a1 @ [xi]) (a2 @ ''-'') rs))"
      if "aligns A B rs" "py_index ?X i = Some xi" for rs m n xi
    proof (rule less.hyps)
      show "nat (i - 1 + 1) + nat (j + 1) < nat (i + 1) + nat (j + 1)" using ij by auto
      show "aligns A B rs" by fact
      show "length (a1 @ [xi]) = length (a2 @ ''-'')" using len by simp
      show "0 \<le> i - 1 \<and> 0 \<le> j \<longrightarrow> i - 1 \<le> int (length A) \<and> j \<le> int (length B)
         \<and> degap (rev (a1 @ [xi])) = drop (nat (i - 1)) A \<and> degap (rev (a2 @ ''-'')) = drop (nat j) B"
      proof
        assume "0 \<le> i - 1 \<and> 0 \<le> j"
        then have i: "0 < i" by simp
        have xi: "xi = A ! nat (i - 1)" using that(2) py_index_sentinel[OF i inv(1)] by simp
        have "nat (i - 1) < length A" using i inv(1) by auto
        then have "xi \<noteq> CHR ''-''" using gapA xi nth_mem by metis
        then show "i - 1 \<le> int (length A) \<and> j \<le> int (length B)
         \<and> degap (rev (a1 @ [xi])) = drop (nat (i - 1)) A \<and> degap (rev (a2 @ ''-'')) = drop (nat j) B"
          using inv xi drop_pred[OF i inv(1)] by (simp add: degap_Cons)
      qed
    qed
    have left: "aligns A B (snd (NW_traceBack table ?X ?Y g m n i (j - 1) (a1 @ ''-'') (a2 @ [yj]) rs))"
      if "aligns A B rs" "py_index ?Y j = Some yj" for rs m n yj
    proof (rule less.hyps)
      show "nat (i + 1) + nat (j - 1 + 1) < nat (i + 1) + nat (j + 1)" using ij by auto
      show "aligns A B rs" by fact
      show "length (a1 @ ''-'') = length (a2 @ [yj])" using len by simp
      show "0 \<le> i \<and> 0 \<le> j - 1 \<longrightarrow> i \<le> int (length A) \<and> j - 1 \<le> int (length B)
         \<and> degap (rev (a1 @ ''-'')) = drop (nat i) A \<and> degap (rev (a2 @ [yj])) = drop (nat (j - 1)) B"
      proof
        assume "0 \<le> i \<and> 0 \<le> j - 1"
        then have j: "0 < j" by simp
        have yj: "yj = B ! nat (j - 1)" using that(2) py_index_sentinel[OF j inv(2)] by simp
        have "nat (j - 1) < length B" using j inv(2) by auto
        then have "yj \<noteq> CHR ''-''" using gapB yj nth_mem by metis
        then show "i \<le> int (length A) \<and> j - 1 \<le> int (length B)
         \<and> degap (rev (a1 @ ''-'')) = drop (nat i) A \<and> degap (rev (a2 @ [yj])) = drop (nat (j - 1)) B"
          using inv yj drop_pred[OF j inv(2)] by (simp add: degap_Cons)
      qed
    qed
    have diag: "aligns A B (snd (NW_traceBack table ?X ?Y g m n (i - 1) (j - 1) (a1 @ [xi]) (a2 @ [yj]) rs))"
      if "aligns A B rs" "py_index ?X i = Some xi" "py_index ?Y j = Some yj" for rs m n xi yj
    proof (rule less.hyps)
      show "nat (i - 1 + 1) + nat (j - 1 + 1) < nat (i + 1) + nat (j + 1)" using ij by auto
      show "aligns A B rs" by fact
      show "length (a1 @ [xi]) = length (a2 @ [yj])" using len by simp
      show "0 \<le> i - 1 \<and> 0 \<le> j - 1 \<longrightarrow> i - 1 \<le> int (length A) \<and> j - 1 \<le> int (length B)
         \<and> degap (rev (a1 @ [xi])) = drop (nat (i - 1)) A \<and> degap (rev (a2 @ [yj])) = drop (nat (j - 1)) B"
      proof
        assume "0 \<le> i - 1 \<and> 0 \<le> j - 1"
        then have i: "0 < i" and j: "0 < j" by simp_all
        have xi: "xi = A ! nat (i - 1)" using that(2) py_index_sentinel[OF i inv(1)] by simp
        have yj: "yj = B ! nat (j - 1)" using that(3) py_index_sentinel[OF j inv(2)] by simp
        have "nat (i - 1) < length A" "nat (j - 1) < length B" using i j inv(1,2) by auto
        then have "xi \<noteq> CHR ''-''" "yj \<noteq> CHR ''-''" using gapA gapB xi yj nth_mem by metis+
        then show "i - 1 \<le> int (length A) \<and> j - 1 \<le> int (length B)
         \<and> degap (rev (a1 @ [xi])) = drop (nat (i - 1)) A \<and> degap (rev (a2 @ [yj])) = drop (nat (j - 1)) B"
          using inv xi yj drop_pred[OF i inv(1)] drop_pred[OF j inv(2)]
          by (simp add: degap_Cons)
      qed
    qed
    have stop: "aligns A B (rs @ [(rev a1, rev a2)])" if "aligns A B rs" "i = 0" "j = 0" for rs
      using that inv len by (simp add: aligns_def)
    show ?thesis
      apply (subst NW_traceBack.simps)
      using False less.prems(1) up left diag stop
      apply (auto intro!: aligns_and_then split: option.splits)
      done
  qed
qed

lemma NeedlemanWunsch_strands:
  assumes ret: "NeedlemanWunsch X Y gap match mismatch = Inr rs"
    and gaps: "CHR ''-'' \<notin> set X" "CHR ''-'' \<notin> set Y"
    and p: "p \<in> set rs"
  shows "length (fst p) = length (snd p) \<and> degap (fst p) = butlast X \<and> degap (snd p) = butlast Y"
proof -
  have X: "X \<noteq> []"
  proof
    assume "X = []"
    then have "NeedlemanWunsch X Y gap match mismatch = Inl (IndexError_traceback (- 1) (int (length Y) - 1))"
      by (simp add: NeedlemanWunsch_def Let_def NW_traceBack.simps returned_def)
    then show False using ret by simp
  qed
  have Y: "Y \<noteq> []"
  proof
    assume "Y = []"
    then have "NeedlemanWunsch X Y gap match mismatch = Inl (IndexError_traceback (int (length X) - 1) (- 1))"
      by (simp add: NeedlemanWunsch_def Let_def NW_traceBack.simps returned_def)
    then show False using ret by simp
  qed
  have sX: "''*'' @ X = CHR ''*'' # butlast X @ [last X]" using X by simp
  have sY: "''*'' @ Y = CHR ''*'' # butlast Y @ [last Y]" using Y by simp
  have gA: "CHR ''-'' \<notin> set (butlast X)" using gaps(1) by (meson in_set_butlastD)
  have gB: "CHR ''-'' \<notin> set (butlast Y)" using gaps(2) by (meson in_set_butlastD)
  let ?r = "NW_traceBack (NW_table X Y gap match mismatch) (''*'' @ X) (''*'' @ Y) gap match mismatch
              (int (length (''*'' @ X)) - 2) (int (length (''*'' @ Y)) - 2) [] [] []"
  have "aligns (butlast X) (butlast Y) (snd ?r)"
    unfolding sX sY
    by (rule NW_traceBack_aligns[OF gA gB]) (simp_all add: aligns_def degap_def)
  moreover have "rs = snd ?r"
    using ret by (auto simp: NeedlemanWunsch_def Let_def returned_def split: prod.splits option.splits)
  ultimately show ?thesis using p by (simp add: aligns_def)
qed

text \<open>
  The first demonstration call of the notebook: the model returns the ten pairs the
  notebook shows, whose strands read the two sequences without their final \<open>T\<close>.
\<close>

lemma NeedlemanWunsch_first_demonstration:
  "NeedlemanWunsch ''ATTCGGCT'' ''AGTTGGGCCCGCGT'' (- 6) 5 (- 2) =
     Inr [(''A-TT----CGGC-'', ''AGTTGGGCCCGCG''),
          (''A-TT---C-GGC-'', ''AGTTGGGCCCGCG''),
          (''A-TT---CG-GC-'', ''AGTTGGGCCCGCG''),
          (''A-TT-CG---GC-'', ''AGTTGGGCCCGCG''),
          (''A-TTC-G---GC-'', ''AGTTGGGCCCGCG''),
          (''A-TTCG----GC-'', ''AGTTGGGCCCGCG''),
          (''A-TTCGG----C-'', ''AGTTGGGCCCGCG''),
          (''A-TTCGG--C---'', ''AGTTGGGCCCGCG''),
          (''A-TTCGG-C----'', ''AGTTGGGCCCGCG''),
          (''A-TTCGGC-----'', ''AGTTGGGCCCGCG'')]"
  by code_simp

section \<open>Empty sequences\<close>

text \<open>
  With an empty sequence the start cell of the global traceback has a negative index, and
  the call raises; the local aligner finds no interior cell, starts at \<open>(0, 0)\<close> and
  returns the pair of empty strands.
\<close>

lemma NeedlemanWunsch_empty_first:
  "NeedlemanWunsch [] Y gap match mismatch = Inl (IndexError_traceback (- 1) (int (length Y) - 1))"
  by (simp add: NeedlemanWunsch_def Let_def NW_traceBack.simps returned_def)

lemma NeedlemanWunsch_empty_second:
  "NeedlemanWunsch X [] gap match mismatch = Inl (IndexError_traceback (int (length X) - 1) (- 1))"
  by (simp add: NeedlemanWunsch_def Let_def NW_traceBack.simps returned_def)

lemma SmithWaterman_empty:
  assumes "X = [] \<or> Y = []"
  shows "SmithWaterman X Y gap match mismatch = Inr [('''', '''')]"
proof -
  have none: "\<not> (r \<in> {1..length X} \<and> c \<in> {1..length Y})" for r c
    using assms by auto
  have "SW_locate (SW_table X Y gap match mismatch) = ((0, 0), 0)"
    using SW_locate_SW_table[of X Y gap match mismatch]
    unfolding located_def scanned_interior using none by blast
  then show ?thesis
    by (simp add: SmithWaterman_start SW_traceBack_origin returned_def)
qed

end
